theory Spec2Isabelle
  imports Complex_Main
begin


section \<open>Python and numpy values\<close>

text \<open>
  The notebook \<^verbatim>\<open>inventory_routing_problem.ipynb\<close> is embedded cell by cell.
  Python integers are \<^typ>\<open>int\<close>; Python and numpy floats are idealised as
  \<^typ>\<open>real\<close> (no rounding, no NaN, no infinities). Every exception the notebook's own
  code can raise on such numbers is a value of \<open>error\<close>, and a computation that may raise
  returns \<open>error + 'a\<close>. What only the range of machine numbers can cause (the
  \<^verbatim>\<open>OverflowError\<close> of a power, a product that underflows to zero, numpy refusing an
  integer beyond 64 bits, pulp refusing a NaN) has no counterpart over the reals: the
  model is built on every input on which the notebook builds it, and possibly on more.
\<close>

datatype error = KeyError | IndexError | ZeroDivisionError | ValueError

definition bindE :: "error + 'a \<Rightarrow> ('a \<Rightarrow> error + 'b) \<Rightarrow> error + 'b" where
  "bindE r k = (case r of Inl e \<Rightarrow> Inl e | Inr x \<Rightarrow> k x)"

text \<open>A comprehension whose element expression may raise: the first failure wins.\<close>

fun mapE :: "('a \<Rightarrow> error + 'b) \<Rightarrow> 'a list \<Rightarrow> error + 'b list" where
  "mapE g [] = Inr []"
| "mapE g (x # xs) = bindE (g x) (\<lambda>v. bindE (mapE g xs) (\<lambda>vs. Inr (v # vs)))"

text \<open>A \<^verbatim>\<open>for\<close> loop that threads a state through a body that may raise.\<close>

fun for_E :: "'a list \<Rightarrow> ('a \<Rightarrow> 's \<Rightarrow> error + 's) \<Rightarrow> 's \<Rightarrow> error + 's" where
  "for_E [] body s = Inr s"
| "for_E (x # xs) body s = bindE (body x s) (for_E xs body)"

text \<open>\<^verbatim>\<open>range(lo, hi)\<close>: the integers from \<open>lo\<close> up to and excluding \<open>hi\<close>.\<close>

definition py_range :: "int \<Rightarrow> int \<Rightarrow> int list" where
  "py_range lo hi = [lo..hi - 1]"

text \<open>
  Indexing a sequence of length \<open>n\<close>: a negative index counts from the end, anything
  outside raises \<^verbatim>\<open>IndexError\<close>.
\<close>

definition norm_index :: "nat \<Rightarrow> int \<Rightarrow> error + nat" where
  "norm_index n i =
     (if 0 \<le> i \<and> i < int n then Inr (nat i)
      else if - int n \<le> i \<and> i < 0 then Inr (nat (int n + i))
      else Inl IndexError)"

definition getitem :: "'a list \<Rightarrow> int \<Rightarrow> error + 'a" where
  "getitem xs i = bindE (norm_index (length xs) i) (\<lambda>n. Inr (xs ! n))"

text \<open>\<^verbatim>\<open>tab[i][j]\<close> on a list of lists.\<close>

definition getitem2 :: "'a list list \<Rightarrow> int \<Rightarrow> int \<Rightarrow> error + 'a" where
  "getitem2 tab i j = bindE (getitem tab i) (\<lambda>row. getitem row j)"

text \<open>Python's true division raises on a zero divisor.\<close>

definition py_div :: "real \<Rightarrow> real \<Rightarrow> error + real" where
  "py_div x d = (if d = 0 then Inl ZeroDivisionError else Inr (x / d))"

text \<open>
  A two-dimensional numpy array: its shape and a store from index pairs to values.
  \<^verbatim>\<open>np.zeros([n, k])\<close> raises \<^verbatim>\<open>ValueError\<close> on a negative dimension.
\<close>

record ndarray =
  nrows :: int
  ncols :: int
  cell :: "int \<Rightarrow> int \<Rightarrow> real"

definition np_zeros :: "int \<Rightarrow> int \<Rightarrow> error + ndarray" where
  "np_zeros n k =
     (if n < 0 \<or> k < 0 then Inl ValueError
      else Inr \<lparr>nrows = n, ncols = k, cell = (\<lambda>i j. 0)\<rparr>)"

definition nd_index :: "int \<Rightarrow> int \<Rightarrow> error + int" where
  "nd_index n i =
     (if 0 \<le> i \<and> i < n then Inr i
      else if - n \<le> i \<and> i < 0 then Inr (n + i)
      else Inl IndexError)"

definition nd_getitem :: "ndarray \<Rightarrow> int \<Rightarrow> int \<Rightarrow> error + real" where
  "nd_getitem A i j =
     bindE (nd_index (nrows A) i) (\<lambda>i'. bindE (nd_index (ncols A) j) (\<lambda>j'. Inr (cell A i' j')))"

definition nd_setitem :: "ndarray \<Rightarrow> int \<Rightarrow> int \<Rightarrow> real \<Rightarrow> error + ndarray" where
  "nd_setitem A i j v =
     bindE (nd_index (nrows A) i) (\<lambda>i'. bindE (nd_index (ncols A) j) (\<lambda>j'.
       Inr (A\<lparr>cell := (cell A)(i' := (cell A i')(j' := v))\<rparr>)))"

section \<open>Index ranges (cell 2)\<close>

definition range_i :: "int \<Rightarrow> int list" where
  "range_i V = py_range 0 V"

definition range_j :: "int \<Rightarrow> int list" where
  "range_j V = py_range 0 V"

definition range_i' :: "int \<Rightarrow> int list" where
  "range_i' V = py_range 1 V"

definition range_j' :: "int \<Rightarrow> int list" where
  "range_j' V = py_range 1 V"

definition range_k :: "int \<Rightarrow> int list" where
  "range_k K = py_range 1 (K + 1)"

definition range_t :: "int \<Rightarrow> int list" where
  "range_t T = py_range 1 (T + 1)"

section \<open>The chance-constraint bound (cell 4)\<close>

text \<open>
  The right-hand side of the assignment
  \<^verbatim>\<open>sum(d_mu[i][s] for s in range(1, t+1)) + np.sqrt(sum(d_mu[i][s]**2 for s in range(1, t+1)))*C*Za\<close>.
\<close>

definition entry_21 :: "real list list \<Rightarrow> real \<Rightarrow> real \<Rightarrow> int \<Rightarrow> int \<Rightarrow> error + real" where
  "entry_21 d_mu C Za i t =
     bindE (mapE (\<lambda>s. getitem2 d_mu i s) (py_range 1 (t + 1))) (\<lambda>ds.
     bindE (mapE (\<lambda>s. bindE (getitem2 d_mu i s) (\<lambda>d. Inr (d ^ 2))) (py_range 1 (t + 1))) (\<lambda>qs.
       Inr (sum_list ds + sqrt (sum_list qs) * C * Za)))"

text \<open>
  \<^verbatim>\<open>right_of_const_21 = np.zeros([V, T+1])\<close>, then the two nested loops that fill the
  cells of the customers' rows.
\<close>

definition right_of_const_21 ::
  "int \<Rightarrow> int \<Rightarrow> real list list \<Rightarrow> real \<Rightarrow> real \<Rightarrow> error + ndarray" where
  "right_of_const_21 V T d_mu C Za =
     bindE (np_zeros V (T + 1)) (\<lambda>A0.
       for_E (range_t T) (\<lambda>t.
         for_E (range_i' V) (\<lambda>i A.
           bindE (entry_21 d_mu C Za i t) (\<lambda>v. nd_setitem A i t v))) A0)"

text \<open>\<^verbatim>\<open>d_mu[i][s]\<close> where the indices are known to be in range.\<close>

definition at2 :: "real list list \<Rightarrow> int \<Rightarrow> int \<Rightarrow> real" where
  "at2 tab i j = tab ! nat i ! nat j"


text \<open>
  \<^verbatim>\<open>Za = stats.norm.ppf(loc=0, scale=1, q=alpha)\<close>: the quantile function of the standard
  normal distribution belongs to scipy, not to the notebook, and is a parameter here.
\<close>

definition stats_norm_ppf_at :: "(real \<Rightarrow> real) \<Rightarrow> real \<Rightarrow> real" where
  "stats_norm_ppf_at norm_ppf alpha = norm_ppf alpha"

section \<open>Linear expressions, constraints and problems of pulp\<close>

text \<open>
  The decision variables, named by family and indices as
  \<^verbatim>\<open>pulp.LpVariable.dicts\<close> names them.
\<close>

datatype var =
    X int int int int
  | F int int int int
  | I int int
  | Ip int int
  | W int int
  | Q int int int

text \<open>
  An affine expression: coefficient terms in the order they were added, and a constant.
  pulp merges the terms of one variable; the value of the expression is the same.
\<close>

datatype LpAffineExpression =
  LpAffineExpression (coeffs: "(var \<times> real) list") (const_term: real)

definition aff_var :: "var \<Rightarrow> LpAffineExpression" where
  "aff_var v = LpAffineExpression [(v, 1)] 0"

definition aff_num :: "real \<Rightarrow> LpAffineExpression" where
  "aff_num x = LpAffineExpression [] x"

definition aff_add :: "LpAffineExpression \<Rightarrow> LpAffineExpression \<Rightarrow> LpAffineExpression" where
  "aff_add e1 e2 = LpAffineExpression (coeffs e1 @ coeffs e2) (const_term e1 + const_term e2)"

definition aff_scale :: "real \<Rightarrow> LpAffineExpression \<Rightarrow> LpAffineExpression" where
  "aff_scale k e = LpAffineExpression (map (\<lambda>(v, x). (v, k * x)) (coeffs e)) (k * const_term e)"

definition aff_sub :: "LpAffineExpression \<Rightarrow> LpAffineExpression \<Rightarrow> LpAffineExpression" where
  "aff_sub e1 e2 = aff_add e1 (aff_scale (- 1) e2)"

text \<open>\<^verbatim>\<open>pulp.lpSum\<close>: an empty expression to which every element is added in turn.\<close>

definition lpSum :: "LpAffineExpression list \<Rightarrow> LpAffineExpression" where
  "lpSum es = foldl aff_add (aff_num 0) es"

text \<open>The value of an expression under an assignment of the variables.\<close>

definition lp_value :: "(var \<Rightarrow> real) \<Rightarrow> LpAffineExpression \<Rightarrow> real" where
  "lp_value \<sigma> e = const_term e + (\<Sum>(v, x) \<leftarrow> coeffs e. \<sigma> v * x)"

datatype LpConstraintSense = LpConstraintLE | LpConstraintEQ | LpConstraintGE

text \<open>
  A constraint \<open>lhs \<sim> rhs\<close> is kept by pulp as the expression \<open>lhs - rhs\<close> and the sense
  of its comparison with zero.
\<close>

datatype LpConstraint =
  LpConstraint (expr: LpAffineExpression) (sense: LpConstraintSense)

definition lp_le :: "LpAffineExpression \<Rightarrow> LpAffineExpression \<Rightarrow> LpConstraint" where
  "lp_le lhs rhs = LpConstraint (aff_sub lhs rhs) LpConstraintLE"

definition lp_eq :: "LpAffineExpression \<Rightarrow> LpAffineExpression \<Rightarrow> LpConstraint" where
  "lp_eq lhs rhs = LpConstraint (aff_sub lhs rhs) LpConstraintEQ"

definition lp_ge :: "LpAffineExpression \<Rightarrow> LpAffineExpression \<Rightarrow> LpConstraint" where
  "lp_ge lhs rhs = LpConstraint (aff_sub lhs rhs) LpConstraintGE"

definition satisfies :: "(var \<Rightarrow> real) \<Rightarrow> LpConstraint \<Rightarrow> bool" where
  "satisfies \<sigma> c =
     (case sense c of
        LpConstraintLE \<Rightarrow> lp_value \<sigma> (expr c) \<le> 0
      | LpConstraintEQ \<Rightarrow> lp_value \<sigma> (expr c) = 0
      | LpConstraintGE \<Rightarrow> 0 \<le> lp_value \<sigma> (expr c))"

datatype LpCategory = LpContinuous | LpInteger | LpBinary

record LpVariable =
  name :: var
  lowBound :: "real option"
  upBound :: "real option"
  cat :: LpCategory

text \<open>
  \<^verbatim>\<open>pulp.LpVariable.dicts(name, indices, lowBound, cat)\<close>: one variable for each key; a
  binary variable is an integer variable between 0 and 1.
\<close>

definition LpVariable_dicts ::
  "('k \<Rightarrow> var) \<Rightarrow> 'k list \<Rightarrow> real option \<Rightarrow> LpCategory \<Rightarrow> LpVariable list" where
  "LpVariable_dicts mk keys lb c =
     map (\<lambda>key.
       if c = LpBinary
       then \<lparr>name = mk key, lowBound = Some 0, upBound = Some 1, cat = LpInteger\<rparr>
       else \<lparr>name = mk key, lowBound = lb, upBound = None, cat = c\<rparr>) keys"

definition within_domain :: "(var \<Rightarrow> real) \<Rightarrow> LpVariable \<Rightarrow> bool" where
  "within_domain \<sigma> d \<longleftrightarrow>
     (case lowBound d of None \<Rightarrow> True | Some lo \<Rightarrow> lo \<le> \<sigma> (name d))
     \<and> (case upBound d of None \<Rightarrow> True | Some hi \<Rightarrow> \<sigma> (name d) \<le> hi)
     \<and> (cat d = LpInteger \<longrightarrow> \<sigma> (name d) \<in> \<int>)"

datatype LpSense = LpMinimize | LpMaximize

record LpProblem =
  direction :: LpSense
  objective :: LpAffineExpression
  constraints :: "LpConstraint list"
  variables :: "LpVariable list"

text \<open>An assignment is feasible when it respects every variable's domain and every constraint.\<close>

definition feasible :: "(var \<Rightarrow> real) \<Rightarrow> LpProblem \<Rightarrow> bool" where
  "feasible \<sigma> prob \<longleftrightarrow>
     list_all (within_domain \<sigma>) (variables prob) \<and> list_all (satisfies \<sigma>) (constraints prob)"

section \<open>Decision variables (cells 8 and 9)\<close>

definition X_vars :: "int \<Rightarrow> int \<Rightarrow> int \<Rightarrow> LpVariable list" where
  "X_vars V K T =
     LpVariable_dicts (\<lambda>(i, j, k, t). X i j k t)
       [(i, j, k, t). i \<leftarrow> range_i V, j \<leftarrow> range_j V, k \<leftarrow> range_k K, t \<leftarrow> range_t T]
       None LpBinary"

definition F_vars :: "int \<Rightarrow> int \<Rightarrow> int \<Rightarrow> LpVariable list" where
  "F_vars V K T =
     LpVariable_dicts (\<lambda>(i, j, k, t). F i j k t)
       [(i, j, k, t). i \<leftarrow> range_i V, j \<leftarrow> range_j V, k \<leftarrow> range_k K, t \<leftarrow> range_t T]
       (Some 0) LpContinuous"

definition I_vars :: "int \<Rightarrow> int \<Rightarrow> LpVariable list" where
  "I_vars V T =
     LpVariable_dicts (\<lambda>(i, t). I i t) [(i, t). i \<leftarrow> range_i' V, t \<leftarrow> range_t T]
       None LpContinuous"

definition Ip_vars :: "int \<Rightarrow> int \<Rightarrow> LpVariable list" where
  "Ip_vars V T =
     LpVariable_dicts (\<lambda>(i, t). Ip i t) [(i, t). i \<leftarrow> range_i' V, t \<leftarrow> range_t T]
       (Some 0) LpContinuous"

definition W_vars :: "int \<Rightarrow> int \<Rightarrow> LpVariable list" where
  "W_vars V T =
     LpVariable_dicts (\<lambda>(i, t). W i t) [(i, t). i \<leftarrow> range_i' V, t \<leftarrow> range_t T]
       (Some 0) LpContinuous"

definition Q_vars :: "int \<Rightarrow> int \<Rightarrow> int \<Rightarrow> LpVariable list" where
  "Q_vars V K T =
     LpVariable_dicts (\<lambda>(i, k, t). Q i k t)
       [(i, k, t). i \<leftarrow> range_i' V, k \<leftarrow> range_k K, t \<leftarrow> range_t T]
       (Some 0) LpContinuous"

text \<open>
  A dictionary lookup raises \<^verbatim>\<open>KeyError\<close> on a key outside the ranges the dictionary
  was declared over. Where every index is a loop variable that runs inside the declared
  range (a node, a vehicle, a period, or \<open>s\<close> in \<^verbatim>\<open>range(1, t+1)\<close> or \<^verbatim>\<open>range(1, t)\<close> for a
  period \<open>t\<close>) the lookup cannot fail and the variable is written directly; where the
  period index is computed from the shelf life \<open>m\<close> the lookup is checked.
\<close>

definition I_at :: "int \<Rightarrow> int \<Rightarrow> int \<Rightarrow> int \<Rightarrow> error + var" where
  "I_at V T i t =
     (if i \<in> set (range_i' V) \<and> t \<in> set (range_t T) then Inr (I i t) else Inl KeyError)"

definition W_at :: "int \<Rightarrow> int \<Rightarrow> int \<Rightarrow> int \<Rightarrow> error + var" where
  "W_at V T i t =
     (if i \<in> set (range_i' V) \<and> t \<in> set (range_t T) then Inr (W i t) else Inl KeyError)"

text \<open>The structural zeros \<^verbatim>\<open>X[i][i][k][t] == 0\<close> and \<^verbatim>\<open>F[i][i][k][t] == 0\<close>.\<close>

definition X_diagonal :: "int \<Rightarrow> int \<Rightarrow> int \<Rightarrow> LpConstraint list" where
  "X_diagonal V K T =
     [lp_eq (aff_var (X i j k t)) (aff_num 0).
        t \<leftarrow> range_t T, k \<leftarrow> range_k K, j \<leftarrow> range_j V, i \<leftarrow> range_i V, i = j]"

definition F_diagonal :: "int \<Rightarrow> int \<Rightarrow> int \<Rightarrow> LpConstraint list" where
  "F_diagonal V K T =
     [lp_eq (aff_var (F i j k t)) (aff_num 0).
        t \<leftarrow> range_t T, k \<leftarrow> range_k K, j \<leftarrow> range_j V, i \<leftarrow> range_i V, i = j]"

section \<open>Derived coefficients (cell 3, Table 2)\<close>

definition lambda_coef :: "real \<Rightarrow> real \<Rightarrow> real \<Rightarrow> error + real" where
  "lambda_coef xi kappa psi = py_div xi (kappa * psi)"

definition y_coef :: "real \<Rightarrow> real \<Rightarrow> real \<Rightarrow> real" where
  "y_coef k_e N_e V_e = k_e * N_e * V_e"

definition gamma_coef :: "real \<Rightarrow> real \<Rightarrow> error + real" where
  "gamma_coef epsilon varpi = py_div 1 (1000 * epsilon * varpi)"

definition beta_coef :: "real \<Rightarrow> real \<Rightarrow> real \<Rightarrow> real" where
  "beta_coef C_d A_e rho = 0.5 * C_d * A_e * rho"

definition s_coef :: "real \<Rightarrow> real \<Rightarrow> real \<Rightarrow> real" where
  "s_coef g phi C_r = g * sin phi + g * C_r * cos phi"

section \<open>The objective function (cell 10)\<close>

definition inventory_cost :: "int \<Rightarrow> int \<Rightarrow> real \<Rightarrow> LpAffineExpression" where
  "inventory_cost V T h =
     lpSum [aff_scale h (aff_var (Ip i t)). i \<leftarrow> range_i' V, t \<leftarrow> range_t T]"

definition waste_cost :: "int \<Rightarrow> int \<Rightarrow> int \<Rightarrow> real \<Rightarrow> error + LpAffineExpression" where
  "waste_cost V T m p =
     bindE (mapE (\<lambda>(i, t). bindE (W_at V T i t) (\<lambda>w. Inr (aff_scale p (aff_var w))))
              [(i, t). i \<leftarrow> range_i' V, t \<leftarrow> py_range m (T + 1)])
       (\<lambda>es. Inr (lpSum es))"

text \<open>
  One summand of the fuel cost; \<^verbatim>\<open>a[i][j]\<close> is read only when \<open>i \<noteq> j\<close>, and every read
  of it within the summand gives the same value or the same \<^verbatim>\<open>IndexError\<close>.
\<close>

definition fuel_term ::
  "real list list \<Rightarrow> real \<Rightarrow> real \<Rightarrow> real \<Rightarrow> real \<Rightarrow> real \<Rightarrow> real \<Rightarrow> real \<Rightarrow> real
   \<Rightarrow> int \<Rightarrow> int \<Rightarrow> int \<Rightarrow> int \<Rightarrow> error + LpAffineExpression" where
  "fuel_term a lambda' y gamma beta s' mu f l i j k t =
     (if i \<noteq> j then
        bindE (getitem2 a i j) (\<lambda>aij.
          Inr (aff_scale l (aff_scale lambda'
            (aff_add
              (aff_add (aff_scale (y * aij) (aff_var (X i j k t)))
                       (aff_scale (gamma * beta * aij * f ^ 2) (aff_var (X i j k t))))
              (aff_scale aij (aff_scale (gamma * s')
                 (aff_add (aff_scale mu (aff_var (X i j k t))) (aff_var (F i j k t)))))))))
      else Inr (aff_num 0))"

definition fuel_cost ::
  "int \<Rightarrow> int \<Rightarrow> int \<Rightarrow> real list list \<Rightarrow> real \<Rightarrow> real \<Rightarrow> real \<Rightarrow> real \<Rightarrow> real \<Rightarrow> real
   \<Rightarrow> real \<Rightarrow> real \<Rightarrow> error + LpAffineExpression" where
  "fuel_cost V K T a lambda' y gamma beta s' mu f l =
     bindE (mapE (\<lambda>(t, k, j, i). fuel_term a lambda' y gamma beta s' mu f l i j k t)
              [(t, k, j, i). t \<leftarrow> range_t T, k \<leftarrow> range_k K, j \<leftarrow> range_j V, i \<leftarrow> range_i V])
       (\<lambda>es. Inr (lpSum es))"

definition driver_term ::
  "real list list \<Rightarrow> real \<Rightarrow> real \<Rightarrow> int \<Rightarrow> int \<Rightarrow> int \<Rightarrow> int \<Rightarrow> error + LpAffineExpression" where
  "driver_term a f r i j k t =
     (if i \<noteq> j then
        bindE (getitem2 a i j) (\<lambda>aij. bindE (py_div aij f) (\<lambda>q.
          Inr (aff_scale r (aff_scale q (aff_var (X i j k t))))))
      else Inr (aff_num 0))"

definition driver_cost ::
  "int \<Rightarrow> int \<Rightarrow> int \<Rightarrow> real list list \<Rightarrow> real \<Rightarrow> real \<Rightarrow> error + LpAffineExpression" where
  "driver_cost V K T a f r =
     bindE (mapE (\<lambda>(t, k, j, i). driver_term a f r i j k t)
              [(t, k, j, i). t \<leftarrow> range_t T, k \<leftarrow> range_k K, j \<leftarrow> range_j V, i \<leftarrow> range_i V])
       (\<lambda>es. Inr (lpSum es))"

section \<open>The constraints (cell 11)\<close>

text \<open>Constraint (2): inventory balance.\<close>

definition constraint_2 :: "int \<Rightarrow> real list list \<Rightarrow> int \<Rightarrow> int \<Rightarrow> error + LpConstraint" where
  "constraint_2 K d_mu i t =
     bindE (mapE (\<lambda>s. bindE (getitem2 d_mu i s) (\<lambda>d. Inr (aff_add (aff_num d) (aff_var (W i s)))))
              (py_range 1 t))
       (\<lambda>es. Inr (lp_eq (aff_var (I i t))
          (aff_sub (lpSum [aff_var (Q i k s). s \<leftarrow> py_range 1 (t + 1), k \<leftarrow> range_k K])
                   (lpSum es))))"

definition constraints_2 ::
  "int \<Rightarrow> int \<Rightarrow> int \<Rightarrow> real list list \<Rightarrow> error + LpConstraint list" where
  "constraints_2 V K T d_mu =
     mapE (\<lambda>(t, i). constraint_2 K d_mu i t) [(t, i). t \<leftarrow> range_t T, i \<leftarrow> range_i' V]"

text \<open>Constraint (3): the positive part of the inventory.\<close>

definition constraints_3 :: "int \<Rightarrow> int \<Rightarrow> LpConstraint list" where
  "constraints_3 V T =
     [lp_ge (aff_var (Ip i t)) (aff_var (I i t)). t \<leftarrow> range_t T, i \<leftarrow> range_i' V]"

text \<open>Constraints (4) and (5): waste after the shelf life, none before.\<close>

definition constraint_45 ::
  "int \<Rightarrow> int \<Rightarrow> int \<Rightarrow> real list list \<Rightarrow> int \<Rightarrow> int \<Rightarrow> error + LpConstraint" where
  "constraint_45 V T m d_mu i t =
     (if t \<ge> m then
        bindE (I_at V T i (t - m + 1)) (\<lambda>inv.
        bindE (mapE (\<lambda>a. getitem2 d_mu i a) (py_range (t - m + 2) (t + 1))) (\<lambda>ds.
        bindE (mapE (\<lambda>a. W_at V T i a) (py_range (t - m + 2) t)) (\<lambda>ws.
          Inr (lp_ge (aff_var (W i t))
            (aff_sub (aff_sub (aff_var inv) (lpSum (map aff_num ds)))
                     (lpSum (map aff_var ws)))))))
      else Inr (lp_eq (aff_var (W i t)) (aff_num 0)))"

definition constraints_45 ::
  "int \<Rightarrow> int \<Rightarrow> int \<Rightarrow> real list list \<Rightarrow> error + LpConstraint list" where
  "constraints_45 V T m d_mu =
     mapE (\<lambda>(t, i). constraint_45 V T m d_mu i t) [(t, i). t \<leftarrow> range_t T, i \<leftarrow> range_i' V]"

text \<open>Constraint (7): as many vehicles enter a customer as leave it.\<close>

definition constraint_7 :: "int \<Rightarrow> int \<Rightarrow> int \<Rightarrow> int \<Rightarrow> LpConstraint" where
  "constraint_7 V j k t =
     lp_eq (lpSum [if i \<noteq> j then aff_var (X i j k t) else aff_num 0. i \<leftarrow> range_i V])
           (lpSum [if i \<noteq> j then aff_var (X j i k t) else aff_num 0. i \<leftarrow> range_i V])"

definition constraints_7 :: "int \<Rightarrow> int \<Rightarrow> int \<Rightarrow> LpConstraint list" where
  "constraints_7 V K T =
     [constraint_7 V j k t. t \<leftarrow> range_t T, k \<leftarrow> range_k K, j \<leftarrow> range_j' V]"

text \<open>Constraint (8): a vehicle leaves a node at most once.\<close>

definition constraint_8 :: "int \<Rightarrow> int \<Rightarrow> int \<Rightarrow> int \<Rightarrow> LpConstraint" where
  "constraint_8 V i k t =
     lp_le (lpSum [if i \<noteq> j then aff_var (X i j k t) else aff_num 0. j \<leftarrow> range_j V])
           (aff_num 1)"

definition constraints_8 :: "int \<Rightarrow> int \<Rightarrow> int \<Rightarrow> LpConstraint list" where
  "constraints_8 V K T =
     [constraint_8 V i k t. t \<leftarrow> range_t T, k \<leftarrow> range_k K, i \<leftarrow> range_i V]"

text \<open>Constraint (9): the load decreases by what is delivered.\<close>

definition constraint_9 :: "int \<Rightarrow> int \<Rightarrow> int \<Rightarrow> int \<Rightarrow> LpConstraint" where
  "constraint_9 V i k t =
     lp_eq (lpSum [if i \<noteq> j then aff_var (F i j k t) else aff_num 0. j \<leftarrow> range_j V])
           (aff_sub (lpSum [if i \<noteq> j then aff_var (F j i k t) else aff_num 0. j \<leftarrow> range_j V])
                    (aff_var (Q i k t)))"

definition constraints_9 :: "int \<Rightarrow> int \<Rightarrow> int \<Rightarrow> LpConstraint list" where
  "constraints_9 V K T =
     [constraint_9 V i k t. t \<leftarrow> range_t T, k \<leftarrow> range_k K, i \<leftarrow> range_i' V]"

text \<open>Constraint (10): capacity.\<close>

definition constraint_10 :: "real \<Rightarrow> int \<Rightarrow> int \<Rightarrow> int \<Rightarrow> int \<Rightarrow> LpConstraint" where
  "constraint_10 c i j k t = lp_le (aff_var (F i j k t)) (aff_scale c (aff_var (X j i k t)))"

definition constraints_10 :: "int \<Rightarrow> int \<Rightarrow> int \<Rightarrow> real \<Rightarrow> LpConstraint list" where
  "constraints_10 V K T c =
     [constraint_10 c i j k t.
        t \<leftarrow> range_t T, k \<leftarrow> range_k K, i \<leftarrow> range_i V, j \<leftarrow> range_j V, i \<noteq> j]"

text \<open>Constraint (21): the service level.\<close>

definition constraint_21 :: "int \<Rightarrow> ndarray \<Rightarrow> int \<Rightarrow> int \<Rightarrow> error + LpConstraint" where
  "constraint_21 K right_21 i t =
     bindE (nd_getitem right_21 i t) (\<lambda>bound.
       Inr (lp_ge
         (aff_sub (lpSum [aff_var (Q i k s). s \<leftarrow> py_range 1 (t + 1), k \<leftarrow> range_k K])
                  (lpSum [aff_var (W i s). s \<leftarrow> py_range 1 t]))
         (aff_num bound)))"

definition constraints_21 :: "int \<Rightarrow> int \<Rightarrow> int \<Rightarrow> ndarray \<Rightarrow> error + LpConstraint list" where
  "constraints_21 V K T right_21 =
     mapE (\<lambda>(t, i). constraint_21 K right_21 i t) [(t, i). t \<leftarrow> range_t T, i \<leftarrow> range_i' V]"

section \<open>Building the model (cells 2 to 11 in order)\<close>

record params =
  par_V :: int
  par_K :: int
  par_T :: int
  par_xi :: real
  par_kappa :: real
  par_psi :: real
  par_k_e :: real
  par_N_e :: real
  par_V_e :: real
  par_rho :: real
  par_A_e :: real
  par_mu :: real
  par_g :: real
  par_phi :: real
  par_C_d :: real
  par_C_r :: real
  par_epsilon :: real
  par_varpi :: real
  par_l :: real
  par_r :: real
  par_c :: real
  par_b :: real
  par_u :: real
  par_f :: real
  par_C :: real
  par_alpha :: real
  par_h :: real
  par_m :: int
  par_p :: real
  par_d_mu :: "real list list"
  par_a :: "real list list"

text \<open>
  What the notebook holds once cell 11 has run: the four cost expressions (kept as globals
  for the report) and the problem.
\<close>

record notebook =
  nb_inventory_cost :: LpAffineExpression
  nb_waste_cost :: LpAffineExpression
  nb_fuel_cost :: LpAffineExpression
  nb_driver_cost :: LpAffineExpression
  nb_problem :: LpProblem

text \<open>
  The cells in the order they run; a cell that raises stops the notebook. The variable
  declarations and the blocks that cannot raise are collected in the final record, in the
  order the notebook adds them to the problem.
\<close>

definition build :: "(real \<Rightarrow> real) \<Rightarrow> params \<Rightarrow> error + notebook" where
  "build norm_ppf P =
     bindE (lambda_coef (par_xi P) (par_kappa P) (par_psi P)) (\<lambda>lambda'.
     bindE (gamma_coef (par_epsilon P) (par_varpi P)) (\<lambda>gamma.
     bindE (right_of_const_21 (par_V P) (par_T P) (par_d_mu P) (par_C P)
              (stats_norm_ppf_at norm_ppf (par_alpha P))) (\<lambda>right_21.
     bindE (waste_cost (par_V P) (par_T P) (par_m P) (par_p P)) (\<lambda>waste.
     bindE (fuel_cost (par_V P) (par_K P) (par_T P) (par_a P) lambda'
              (y_coef (par_k_e P) (par_N_e P) (par_V_e P)) gamma
              (beta_coef (par_C_d P) (par_A_e P) (par_rho P))
              (s_coef (par_g P) (par_phi P) (par_C_r P)) (par_mu P) (par_f P) (par_l P)) (\<lambda>fuel.
     bindE (driver_cost (par_V P) (par_K P) (par_T P) (par_a P) (par_f P) (par_r P)) (\<lambda>driver.
     bindE (constraints_2 (par_V P) (par_K P) (par_T P) (par_d_mu P)) (\<lambda>c2.
     bindE (constraints_45 (par_V P) (par_T P) (par_m P) (par_d_mu P)) (\<lambda>c45.
     bindE (constraints_21 (par_V P) (par_K P) (par_T P) right_21) (\<lambda>c21.
       Inr \<lparr>nb_inventory_cost = inventory_cost (par_V P) (par_T P) (par_h P),
            nb_waste_cost = waste,
            nb_fuel_cost = fuel,
            nb_driver_cost = driver,
            nb_problem =
              \<lparr>direction = LpMinimize,
               objective =
                 aff_add (aff_add (aff_add (inventory_cost (par_V P) (par_T P) (par_h P)) waste)
                   fuel) driver,
               constraints =
                 X_diagonal (par_V P) (par_K P) (par_T P)
                 @ F_diagonal (par_V P) (par_K P) (par_T P)
                 @ c2 @ constraints_3 (par_V P) (par_T P) @ c45
                 @ constraints_7 (par_V P) (par_K P) (par_T P)
                 @ constraints_8 (par_V P) (par_K P) (par_T P)
                 @ constraints_9 (par_V P) (par_K P) (par_T P)
                 @ constraints_10 (par_V P) (par_K P) (par_T P) (par_c P) @ c21,
               variables =
                 X_vars (par_V P) (par_K P) (par_T P) @ F_vars (par_V P) (par_K P) (par_T P)
                 @ I_vars (par_V P) (par_T P) @ Ip_vars (par_V P) (par_T P)
                 @ W_vars (par_V P) (par_T P) @ Q_vars (par_V P) (par_K P) (par_T P)\<rparr>\<rparr>)))))))))"


text \<open>A table with at least \<open>n\<close> rows, the first \<open>n\<close> of which have at least \<open>k\<close> columns.\<close>

definition table_shape :: "'a list list \<Rightarrow> int \<Rightarrow> int \<Rightarrow> bool" where
  "table_shape tab n k \<longleftrightarrow>
     n \<le> int (length tab) \<and> list_all (\<lambda>row. k \<le> int (length row)) (take (nat n) tab)"

section \<open>Solving and reporting (cells 12 to 15)\<close>

text \<open>
  \<^verbatim>\<open>problem.solve\<close> belongs to pulp and CBC: it leaves a status and, in each variable, a
  value or \<^verbatim>\<open>None\<close>. Both are inputs of the report.
\<close>

datatype LpStatus =
    LpStatusNotSolved
  | LpStatusOptimal
  | LpStatusInfeasible
  | LpStatusUnbounded
  | LpStatusUndefined

text \<open>
  \<^verbatim>\<open>pulp.value\<close> of an expression: \<^verbatim>\<open>None\<close> as soon as a variable has no value, else the
  constant plus the weighted values.
\<close>

definition pulp_value :: "(var \<Rightarrow> real option) \<Rightarrow> LpAffineExpression \<Rightarrow> real option" where
  "pulp_value varValue e =
     foldl (\<lambda>acc (v, x).
        case acc of None \<Rightarrow> None
        | Some s \<Rightarrow> (case varValue v of None \<Rightarrow> None | Some y \<Rightarrow> Some (s + y * x)))
       (Some (const_term e)) (coeffs e)"

record report =
  shown_status :: LpStatus
  shown_objective :: "real option"
  shown_inventory_cost :: "real option"
  shown_waste_cost :: "real option"
  shown_fuel_cost :: "real option"
  shown_driver_cost :: "real option"
  shown_cost :: "real option"
  shown_routes :: "(int \<times> int \<times> int \<times> int) list"

text \<open>
  The three printing cells: the status line, the cost breakdown, and every \<open>(t, k, i, j)\<close>
  with \<^verbatim>\<open>pulp.value(X[i][j][k][t]) == 1\<close>.
\<close>

definition solution_report ::
  "int \<Rightarrow> int \<Rightarrow> int \<Rightarrow> notebook \<Rightarrow> LpStatus \<Rightarrow> (var \<Rightarrow> real option) \<Rightarrow> report" where
  "solution_report V K T nb result_status varValue =
     \<lparr>shown_status = result_status,
      shown_objective = pulp_value varValue (objective (nb_problem nb)),
      shown_inventory_cost = pulp_value varValue (nb_inventory_cost nb),
      shown_waste_cost = pulp_value varValue (nb_waste_cost nb),
      shown_fuel_cost = pulp_value varValue (nb_fuel_cost nb),
      shown_driver_cost = pulp_value varValue (nb_driver_cost nb),
      shown_cost = pulp_value varValue (objective (nb_problem nb)),
      shown_routes =
        [(t, k, i, j). t \<leftarrow> range_t T, k \<leftarrow> range_k K, i \<leftarrow> range_i V, j \<leftarrow> range_j V,
           varValue (X i j k t) = Some 1]\<rparr>"

text \<open>The whole notebook: build, solve with the external solver, report.\<close>

definition run_notebook ::
  "(real \<Rightarrow> real) \<Rightarrow> (LpProblem \<Rightarrow> LpStatus \<times> (var \<Rightarrow> real option)) \<Rightarrow> params
   \<Rightarrow> error + report" where
  "run_notebook norm_ppf solve P =
     bindE (build norm_ppf P) (\<lambda>nb.
       Inr (solution_report (par_V P) (par_K P) (par_T P) nb
              (fst (solve (nb_problem nb))) (snd (solve (nb_problem nb)))))"

text \<open>
  An assignment is a feasible solution of the model built from \<open>P\<close> when the model was
  built and the assignment is feasible for its problem.
\<close>

definition feasible_for :: "(real \<Rightarrow> real) \<Rightarrow> params \<Rightarrow> (var \<Rightarrow> real) \<Rightarrow> bool" where
  "feasible_for norm_ppf P \<sigma> =
     (case build norm_ppf P of Inl e \<Rightarrow> False | Inr nb \<Rightarrow> feasible \<sigma> (nb_problem nb))"

section \<open>Sample data\<close>

text \<open>
  The notebook's constants on the smallest graph with a customer: the depot and customer 1,
  one vehicle, two periods, the distances between nodes 0 and 1, and no demand.
\<close>

definition tiny :: params where
  "tiny =
     \<lparr>par_V = 2, par_K = 1, par_T = 2,
      par_xi = 1, par_kappa = 44, par_psi = 737, par_k_e = 0.2, par_N_e = 33, par_V_e = 5,
      par_rho = 1.2041, par_A_e = 3.912, par_mu = 6350, par_g = 9.81, par_phi = 0,
      par_C_d = 0.7, par_C_r = 0.01, par_epsilon = 0.4, par_varpi = 0.9,
      par_l = 1.7, par_r = 0.003, par_c = 10000, par_b = 0.21, par_u = 2.63, par_f = 80,
      par_C = 0.1, par_alpha = 0.95, par_h = 0.06, par_m = 2, par_p = 0.6,
      par_d_mu = [[0, 0, 0], [0, 0, 0]],
      par_a = [[0, 67], [73.2, 0]]\<rparr>"

text \<open>
  A stand-in for scipy's quantile function that agrees with it at the two service levels
  used below: \<open>0\<close> at \<open>0.5\<close> and \<open>1.6448536269514722\<close> at the notebook's \<open>0.95\<close>.
\<close>

definition norm_ppf_sample :: "real \<Rightarrow> real" where
  "norm_ppf_sample q = (if q \<le> 1 / 2 then 0 else 16448536269514722 / 10 ^ 16)"

definition zero_assignment :: "var \<Rightarrow> real" where
  "zero_assignment v = 0"

text \<open>A solver outcome: status infeasible, vehicle 1 on the edge from 0 to 1 in period 1.\<close>

definition infeasible_outcome :: "LpProblem \<Rightarrow> LpStatus \<times> (var \<Rightarrow> real option)" where
  "infeasible_outcome prob =
     (LpStatusInfeasible, (\<lambda>v. if v = X 0 1 1 1 then Some 1 else Some 0))"

text \<open>The assignment that outcome leaves in the variables.\<close>

definition routed_assignment :: "var \<Rightarrow> real" where
  "routed_assignment v = (if v = X 0 1 1 1 then 1 else 0)"

section \<open>Errors, loops and tables\<close>

lemma bindE_Inr [simp]: "bindE (Inr x) k = k x"
  by (simp add: bindE_def)

lemma bindE_Inl [simp]: "bindE (Inl e) k = Inl e"
  by (simp add: bindE_def)

lemma bindE_eq_Inr: "bindE r k = Inr y \<longleftrightarrow> (\<exists>x. r = Inr x \<and> k x = Inr y)"
  by (cases r) simp_all

lemma mapE_Inr_D: "mapE g xs = Inr ys \<Longrightarrow> list_all2 (\<lambda>x y. g x = Inr y) xs ys"
proof (induction xs arbitrary: ys)
  case Nil
  then show ?case by simp
next
  case (Cons x xs)
  then show ?case by (auto simp: bindE_eq_Inr)
qed

lemma mapE_Inr_I: "(\<And>x. x \<in> set xs \<Longrightarrow> g x = Inr (h x)) \<Longrightarrow> mapE g xs = Inr (map h xs)"
  by (induction xs) simp_all

lemma mapE_sum_list:
  assumes "mapE g xs = Inr ys"
    and "\<And>x y. x \<in> set xs \<Longrightarrow> g x = Inr y \<Longrightarrow> w y = h x"
  shows "sum_list (map w ys) = sum_list (map h xs)"
  using assms
proof (induction xs arbitrary: ys)
  case Nil
  then show ?case by simp
next
  case (Cons x xs)
  from Cons.prems(1) obtain v vs where v: "g x = Inr v" and vs: "mapE g xs = Inr vs"
    and ys: "ys = v # vs"
    by (auto simp: bindE_eq_Inr)
  have "w v = h x" using Cons.prems(2) v by simp
  moreover have "sum_list (map w vs) = sum_list (map h xs)"
    using vs Cons.prems(2) by (intro Cons.IH) auto
  ultimately show ?case by (simp add: ys)
qed

lemma sum_list_py_range: "sum_list (map h (py_range lo hi)) = (\<Sum>s = lo..hi - 1. h s)"
  by (simp add: py_range_def sum_set_upto_conv_sum_list_int [symmetric])

lemma set_py_range [simp]: "set (py_range lo hi) = {lo..hi - 1}"
  by (simp add: py_range_def)

lemma getitem_Inr_D:
  "getitem xs i = Inr v \<Longrightarrow> 0 \<le> i \<Longrightarrow> i < int (length xs) \<and> v = xs ! nat i"
  by (auto simp: getitem_def norm_index_def bindE_eq_Inr split: if_splits)

lemma getitem_Inr_I: "0 \<le> i \<Longrightarrow> i < int (length xs) \<Longrightarrow> getitem xs i = Inr (xs ! nat i)"
  by (simp add: getitem_def norm_index_def)

lemma getitem2_Inr_D:
  "getitem2 tab i j = Inr v \<Longrightarrow> 0 \<le> i \<Longrightarrow> 0 \<le> j \<Longrightarrow> v = at2 tab i j"
  by (auto simp: getitem2_def at2_def bindE_eq_Inr dest!: getitem_Inr_D)

lemma getitem2_Inr_I:
  "0 \<le> i \<Longrightarrow> i < int (length tab) \<Longrightarrow> 0 \<le> j \<Longrightarrow> j < int (length (tab ! nat i)) \<Longrightarrow>
   getitem2 tab i j = Inr (at2 tab i j)"
  by (simp add: getitem2_def at2_def getitem_Inr_I)

lemma entry_21_Inr_D:
  assumes "entry_21 d_mu C Za i t = Inr v" and "0 \<le> i"
  shows "v = (\<Sum>s = 1..t. at2 d_mu i s) + sqrt (\<Sum>s = 1..t. (at2 d_mu i s)\<^sup>2) * C * Za"
proof -
  from assms(1) obtain ds qs where
    ds: "mapE (\<lambda>s. getitem2 d_mu i s) (py_range 1 (t + 1)) = Inr ds" and
    qs: "mapE (\<lambda>s. bindE (getitem2 d_mu i s) (\<lambda>d. Inr (d ^ 2))) (py_range 1 (t + 1)) = Inr qs" and
    v: "v = sum_list ds + sqrt (sum_list qs) * C * Za"
    by (auto simp: entry_21_def bindE_eq_Inr)
  have "sum_list (map (\<lambda>x. x) ds) = sum_list (map (\<lambda>s. at2 d_mu i s) (py_range 1 (t + 1)))"
    using ds by (rule mapE_sum_list) (use assms(2) in \<open>auto dest: getitem2_Inr_D\<close>)
  then have 1: "sum_list ds = (\<Sum>s = 1..t. at2 d_mu i s)"
    by (simp add: sum_list_py_range)
  have "sum_list (map (\<lambda>x. x) qs) = sum_list (map (\<lambda>s. (at2 d_mu i s)\<^sup>2) (py_range 1 (t + 1)))"
    using qs by (rule mapE_sum_list) (use assms(2) in \<open>auto simp: bindE_eq_Inr dest: getitem2_Inr_D\<close>)
  then have 2: "sum_list qs = (\<Sum>s = 1..t. (at2 d_mu i s)\<^sup>2)"
    by (simp add: sum_list_py_range)
  show ?thesis by (simp only: v 1 2)
qed

lemma for_E_invariant:
  assumes "for_E xs body s = Inr s'"
    and "Inv {} s"
    and "\<And>D x s1 s2. Inv D s1 \<Longrightarrow> x \<in> set xs \<Longrightarrow> body x s1 = Inr s2 \<Longrightarrow> Inv (insert x D) s2"
  shows "Inv (set xs) s'"
proof -
  have "for_E ys body s1 = Inr s' \<Longrightarrow> Inv D s1 \<Longrightarrow> set ys \<subseteq> set xs \<Longrightarrow> Inv (D \<union> set ys) s'"
    for ys D s1
  proof (induction ys arbitrary: D s1)
    case Nil
    then show ?case by simp
  next
    case (Cons y ys)
    from Cons.prems(1) obtain s2 where b: "body y s1 = Inr s2" and r: "for_E ys body s2 = Inr s'"
      by (auto simp: bindE_eq_Inr)
    have "Inv (insert y D) s2" using Cons.prems(2,3) b by (intro assms(3)) auto
    from Cons.IH [OF r this] Cons.prems(3) show ?case by simp
  qed
  from this [OF assms(1,2)] show ?thesis by simp
qed

lemma nd_setitem_Inr_D:
  assumes "nd_setitem A i j v = Inr B" and "0 \<le> i" and "0 \<le> j"
  shows "nrows B = nrows A \<and> ncols B = ncols A \<and> i < nrows A \<and> j < ncols A
     \<and> cell B = (cell A)(i := (cell A i)(j := v))"
  using assms by (auto simp: nd_setitem_def nd_index_def bindE_eq_Inr split: if_splits)

lemma table_shape_D:
  assumes "table_shape tab n k" and "0 \<le> i" and "i < n"
  shows "i < int (length tab)" and "k \<le> int (length (tab ! nat i))"
proof -
  show 1: "i < int (length tab)" using assms by (simp add: table_shape_def)
  have "nat i < length (take (nat n) tab)" using assms 1 by simp
  then have "take (nat n) tab ! nat i \<in> set (take (nat n) tab)" by (rule nth_mem)
  moreover have "take (nat n) tab ! nat i = tab ! nat i" using assms by simp
  ultimately show "k \<le> int (length (tab ! nat i))"
    using assms(1) by (simp add: table_shape_def list_all_iff)
qed

lemma getitem2_table_shape:
  "table_shape tab n k \<Longrightarrow> 0 \<le> i \<Longrightarrow> i < n \<Longrightarrow> 0 \<le> j \<Longrightarrow> j < k \<Longrightarrow>
   getitem2 tab i j = Inr (at2 tab i j)"
  using table_shape_D [of tab n k i] by (intro getitem2_Inr_I) auto

lemma for_E_succeeds:
  assumes "Inv s"
    and "\<And>x s1. x \<in> set xs \<Longrightarrow> Inv s1 \<Longrightarrow> \<exists>s2. body x s1 = Inr s2 \<and> Inv s2"
  shows "\<exists>s'. for_E xs body s = Inr s' \<and> Inv s'"
  using assms
proof (induction xs arbitrary: s)
  case Nil
  then show ?case by simp
next
  case (Cons x xs)
  from Cons.prems obtain s2 where b: "body x s = Inr s2" and i: "Inv s2"
    by (meson list.set_intros(1))
  from Cons.IH [OF i] Cons.prems(2) obtain s' where "for_E xs body s2 = Inr s'" "Inv s'"
    by (meson list.set_intros(2))
  with b show ?case by simp
qed

lemma entry_21_succeeds:
  assumes "table_shape d_mu V (T + 1)" and "1 \<le> i" and "i < V" and "t \<le> T"
  shows "\<exists>v. entry_21 d_mu C Za i t = Inr v"
proof -
  have g: "getitem2 d_mu i s = Inr (at2 d_mu i s)" if "s \<in> set (py_range 1 (t + 1))" for s
    using that assms by (intro getitem2_table_shape [of d_mu V "T + 1"]) auto
  have 1: "mapE (\<lambda>s. getitem2 d_mu i s) (py_range 1 (t + 1))
      = Inr (map (\<lambda>s. at2 d_mu i s) (py_range 1 (t + 1)))"
    by (rule mapE_Inr_I) (rule g)
  have 2: "mapE (\<lambda>s. bindE (getitem2 d_mu i s) (\<lambda>d. Inr (d ^ 2))) (py_range 1 (t + 1))
      = Inr (map (\<lambda>s. (at2 d_mu i s) ^ 2) (py_range 1 (t + 1)))"
    by (rule mapE_Inr_I) (simp add: g)
  show ?thesis by (simp add: entry_21_def 1 2)
qed

lemma nd_setitem_succeeds:
  "0 \<le> i \<Longrightarrow> i < nrows A \<Longrightarrow> 0 \<le> j \<Longrightarrow> j < ncols A \<Longrightarrow>
   nd_setitem A i j v = Inr (A\<lparr>cell := (cell A)(i := (cell A i)(j := v))\<rparr>)"
  by (simp add: nd_setitem_def nd_index_def)

lemma right_of_const_21_succeeds:
  assumes "0 \<le> V" and "0 \<le> T" and "table_shape d_mu V (T + 1)"
  shows "\<exists>A. right_of_const_21 V T d_mu C Za = Inr A"
proof -
  define Inv where "Inv A \<longleftrightarrow> nrows A = V \<and> ncols A = T + 1" for A :: ndarray
  define A0 where "A0 = \<lparr>nrows = V, ncols = T + 1, cell = (\<lambda>i j. 0::real)\<rparr>"
  have z: "np_zeros V (T + 1) = Inr A0" using assms by (simp add: np_zeros_def A0_def)
  have i0: "Inv A0" by (simp add: Inv_def A0_def)
  have inner: "\<exists>A2. for_E (range_i' V) (\<lambda>i A.
           bindE (entry_21 d_mu C Za i t) (\<lambda>v. nd_setitem A i t v)) A1 = Inr A2 \<and> Inv A2"
    if t: "t \<in> set (range_t T)" and A1: "Inv A1" for t A1
  proof (rule for_E_succeeds [where Inv = Inv, OF A1])
    fix i A
    assume i: "i \<in> set (range_i' V)" and A: "Inv A"
    from i t have b: "1 \<le> i" "i < V" "1 \<le> t" "t \<le> T" by (auto simp: range_i'_def range_t_def)
    from entry_21_succeeds [OF assms(3) b(1,2,4)] obtain v where v: "entry_21 d_mu C Za i t = Inr v"
      by blast
    have "nd_setitem A i t v = Inr (A\<lparr>cell := (cell A)(i := (cell A i)(t := v))\<rparr>)"
      using b A by (intro nd_setitem_succeeds) (auto simp: Inv_def)
    with v A show "\<exists>s2. bindE (entry_21 d_mu C Za i t) (\<lambda>v. nd_setitem A i t v) = Inr s2 \<and> Inv s2"
      by (simp add: Inv_def)
  qed
  have "\<exists>A. for_E (range_t T) (\<lambda>t. for_E (range_i' V) (\<lambda>i A.
           bindE (entry_21 d_mu C Za i t) (\<lambda>v. nd_setitem A i t v))) A0 = Inr A \<and> Inv A"
    by (rule for_E_succeeds [where Inv = Inv, OF i0]) (rule inner)
  then show ?thesis
    by (auto simp: right_of_const_21_def z)
qed

lemma right_of_const_21_cells:
  assumes "right_of_const_21 V T d_mu C Za = Inr A"
  shows "nrows A = V \<and> ncols A = T + 1
     \<and> (\<forall>t \<in> {1..T}. \<forall>i \<in> {1..V - 1}. entry_21 d_mu C Za i t = Inr (cell A i t))"
proof -
  from assms obtain A0 where z: "np_zeros V (T + 1) = Inr A0"
    and loop: "for_E (range_t T) (\<lambda>t. for_E (range_i' V) (\<lambda>i A.
           bindE (entry_21 d_mu C Za i t) (\<lambda>v. nd_setitem A i t v))) A0 = Inr A"
    by (auto simp: right_of_const_21_def bindE_eq_Inr)
  define Shape where "Shape B \<longleftrightarrow> nrows B = V \<and> ncols B = T + 1" for B :: ndarray
  define Inner where "Inner t B D B' \<longleftrightarrow> Shape B'
      \<and> (\<forall>i \<in> D. entry_21 d_mu C Za i t = Inr (cell B' i t))
      \<and> (\<forall>i' t'. t' \<noteq> t \<longrightarrow> cell B' i' t' = cell B i' t')"
    for t and B :: ndarray and D and B' :: ndarray
  define Outer where "Outer D B \<longleftrightarrow> Shape B
      \<and> (\<forall>t \<in> D. \<forall>i \<in> {1..V - 1}. entry_21 d_mu C Za i t = Inr (cell B i t))"
    for D and B :: ndarray
  have inner: "Inner t B (set (range_i' V)) B'"
    if run: "for_E (range_i' V) (\<lambda>i A.
           bindE (entry_21 d_mu C Za i t) (\<lambda>v. nd_setitem A i t v)) B = Inr B'"
      and B: "Shape B" and t: "1 \<le> t" for t B B'
  proof (rule for_E_invariant [where Inv = "Inner t B", OF run])
    show "Inner t B {} B" using B by (simp add: Inner_def)
  next
    fix D i s1 s2
    assume inv: "Inner t B D s1" and i: "i \<in> set (range_i' V)"
      and step: "bindE (entry_21 d_mu C Za i t) (\<lambda>v. nd_setitem s1 i t v) = Inr s2"
    from step obtain v where v: "entry_21 d_mu C Za i t = Inr v"
      and set: "nd_setitem s1 i t v = Inr s2"
      by (auto simp: bindE_eq_Inr)
    from i have "0 \<le> i" by (simp add: range_i'_def)
    from nd_setitem_Inr_D [OF set this] t
    have s2: "nrows s2 = nrows s1" "ncols s2 = ncols s1"
      "cell s2 = (cell s1)(i := (cell s1 i)(t := v))" by auto
    show "Inner t B (insert i D) s2"
      using inv v by (auto simp: Inner_def Shape_def s2)
  qed
  have "Outer (set (range_t T)) A"
  proof (rule for_E_invariant [where Inv = Outer, OF loop])
    show "Outer {} A0" using z by (auto simp: Outer_def Shape_def np_zeros_def split: if_splits)
  next
    fix D t s1 s2
    assume inv: "Outer D s1" and t: "t \<in> set (range_t T)"
      and run: "for_E (range_i' V) (\<lambda>i A.
           bindE (entry_21 d_mu C Za i t) (\<lambda>v. nd_setitem A i t v)) s1 = Inr s2"
    from t have "1 \<le> t" by (simp add: range_t_def)
    from inner [OF run _ this] inv have "Inner t s1 (set (range_i' V)) s2"
      by (simp add: Outer_def)
    then have sh: "Shape s2"
      and new: "\<forall>i \<in> {1..V - 1}. entry_21 d_mu C Za i t = Inr (cell s2 i t)"
      and old: "\<forall>i' t'. t' \<noteq> t \<longrightarrow> cell s2 i' t' = cell s1 i' t'"
      by (simp_all add: Inner_def range_i'_def)
    have "entry_21 d_mu C Za i u = Inr (cell s2 i u)" if "u \<in> insert t D" "i \<in> {1..V - 1}" for u i
    proof (cases "u = t")
      case True
      then show ?thesis using new that by simp
    next
      case False
      then have "entry_21 d_mu C Za i u = Inr (cell s1 i u)" using inv that by (simp add: Outer_def)
      then show ?thesis using old False by simp
    qed
    then show "Outer (insert t D) s2"
      using sh by (simp add: Outer_def)
  qed
  then show ?thesis by (simp add: Outer_def Shape_def range_t_def)
qed

lemma right_of_const_21_formula:
  assumes "right_of_const_21 V T d_mu C Za = Inr A"
    and "1 \<le> i" and "i \<le> V - 1" and "1 \<le> t" and "t \<le> T"
  shows "cell A i t
    = (\<Sum>s = 1..t. at2 d_mu i s) + sqrt (\<Sum>s = 1..t. (at2 d_mu i s)\<^sup>2) * C * Za"
proof -
  from right_of_const_21_cells [OF assms(1)] assms(2-)
  have "entry_21 d_mu C Za i t = Inr (cell A i t)" by simp
  then show ?thesis using assms(2) by (intro entry_21_Inr_D) auto
qed

section \<open>The table of bounds\<close>

lemma nd_getitem_Inr_I:
  "0 \<le> i \<Longrightarrow> i < nrows A \<Longrightarrow> 0 \<le> j \<Longrightarrow> j < ncols A \<Longrightarrow> nd_getitem A i j = Inr (cell A i j)"
  by (simp add: nd_getitem_def nd_index_def)

lemma right_of_const_21_getitem:
  assumes "right_of_const_21 V T d_mu C Za = Inr A"
    and "1 \<le> i" and "i \<le> V - 1" and "1 \<le> t" and "t \<le> T"
  shows "nd_getitem A i t
    = Inr ((\<Sum>s = 1..t. at2 d_mu i s) + sqrt (\<Sum>s = 1..t. (at2 d_mu i s)\<^sup>2) * C * Za)"
proof -
  from right_of_const_21_cells [OF assms(1)] have "nrows A = V" "ncols A = T + 1" by simp_all
  then have "nd_getitem A i t = Inr (cell A i t)"
    using assms(2-) by (intro nd_getitem_Inr_I) auto
  then show ?thesis by (simp add: right_of_const_21_formula [OF assms])
qed






section \<open>Values of expressions and sums over ranges\<close>

lemma lp_value_aff_var [simp]: "lp_value \<sigma> (aff_var v) = \<sigma> v"
  by (simp add: lp_value_def aff_var_def)

lemma lp_value_aff_num [simp]: "lp_value \<sigma> (aff_num x) = x"
  by (simp add: lp_value_def aff_num_def)

lemma lp_value_aff_add [simp]:
  "lp_value \<sigma> (aff_add e1 e2) = lp_value \<sigma> e1 + lp_value \<sigma> e2"
  by (simp add: lp_value_def aff_add_def)

lemma sum_list_scaled_terms:
  "(\<Sum>(v, x) \<leftarrow> map (\<lambda>(v, x). (v, k * x)) ts. \<sigma> v * x) = k * (\<Sum>(v, x) \<leftarrow> ts. \<sigma> v * (x::real))"
  by (induction ts) (auto simp: algebra_simps)

lemma lp_value_aff_scale [simp]: "lp_value \<sigma> (aff_scale k e) = k * lp_value \<sigma> e"
  unfolding lp_value_def aff_scale_def LpAffineExpression.sel sum_list_scaled_terms
  by (simp add: distrib_left)

lemma lp_value_aff_sub [simp]:
  "lp_value \<sigma> (aff_sub e1 e2) = lp_value \<sigma> e1 - lp_value \<sigma> e2"
  by (simp add: aff_sub_def)

lemma lp_value_foldl:
  "lp_value \<sigma> (foldl aff_add e es) = lp_value \<sigma> e + sum_list (map (lp_value \<sigma>) es)"
  by (induction es arbitrary: e) simp_all

lemma lp_value_lpSum [simp]: "lp_value \<sigma> (lpSum es) = sum_list (map (lp_value \<sigma>) es)"
  by (simp add: lpSum_def lp_value_foldl)

lemma satisfies_lp_eq [simp]:
  "satisfies \<sigma> (lp_eq lhs rhs) \<longleftrightarrow> lp_value \<sigma> lhs = lp_value \<sigma> rhs"
  by (simp add: satisfies_def lp_eq_def)

lemma satisfies_lp_le [simp]:
  "satisfies \<sigma> (lp_le lhs rhs) \<longleftrightarrow> lp_value \<sigma> lhs \<le> lp_value \<sigma> rhs"
  by (simp add: satisfies_def lp_le_def)

lemma satisfies_lp_ge [simp]:
  "satisfies \<sigma> (lp_ge lhs rhs) \<longleftrightarrow> lp_value \<sigma> rhs \<le> lp_value \<sigma> lhs"
  by (simp add: satisfies_def lp_ge_def)

lemma sum_list_if_neq:
  fixes h :: "int \<Rightarrow> real"
  shows "sum_list (map (\<lambda>i. if i \<noteq> j then h i else 0) (py_range lo hi))
     = (\<Sum>i \<in> {lo..hi - 1} - {j}. h i)"
proof -
  have "(\<Sum>i = lo..hi - 1. if i \<noteq> j then h i else 0) = (\<Sum>i \<in> {lo..hi - 1} - {j}. h i)"
    by (rule sum.mono_neutral_cong_right) auto
  then show ?thesis by (simp add: sum_list_py_range)
qed

lemma sum_list_pairs:
  "sum_list (map h [(x, y). x \<leftarrow> xs, y \<leftarrow> ys])
     = (\<Sum>x \<leftarrow> xs. \<Sum>y \<leftarrow> ys. (h (x, y) :: real))"
  by (induction xs) (simp_all add: comp_def)

lemma sum_list_quads:
  "sum_list (map h [(t, k, j, i). t \<leftarrow> ts, k \<leftarrow> ks, j \<leftarrow> js, i \<leftarrow> is])
     = (\<Sum>t \<leftarrow> ts. \<Sum>k \<leftarrow> ks. \<Sum>j \<leftarrow> js. \<Sum>i \<leftarrow> is. (h (t, k, j, i) :: real))"
proof -
  have 1: "sum_list (map h (concat (map (\<lambda>j. map (\<lambda>i. (t, k, j, i)) is) js)))
      = (\<Sum>j \<leftarrow> js. \<Sum>i \<leftarrow> is. h (t, k, j, i))" for t k
    by (induction js) (simp_all add: comp_def)
  have 2: "sum_list (map h (concat (map (\<lambda>k. concat (map (\<lambda>j. map (\<lambda>i. (t, k, j, i)) is) js)) ks)))
      = (\<Sum>k \<leftarrow> ks. \<Sum>j \<leftarrow> js. \<Sum>i \<leftarrow> is. h (t, k, j, i))" for t
    by (induction ks) (simp_all add: 1)
  show ?thesis
    by (induction ts) (simp_all add: 2)
qed

section \<open>The constraints one by one\<close>

lemma expr_lp [simp]:
  "expr (lp_eq lhs rhs) = aff_sub lhs rhs"
  "expr (lp_le lhs rhs) = aff_sub lhs rhs"
  "expr (lp_ge lhs rhs) = aff_sub lhs rhs"
  by (simp_all add: lp_eq_def lp_le_def lp_ge_def)

lemma sense_lp [simp]:
  "sense (lp_eq lhs rhs) = LpConstraintEQ"
  "sense (lp_le lhs rhs) = LpConstraintLE"
  "sense (lp_ge lhs rhs) = LpConstraintGE"
  by (simp_all add: lp_eq_def lp_le_def lp_ge_def)

lemma mapE_member:
  assumes "mapE g xs = Inr ys" and "x \<in> set xs"
  shows "\<exists>y. g x = Inr y \<and> y \<in> set ys"
  using assms by (induction xs arbitrary: ys) (auto simp: bindE_eq_Inr)

lemma mapE_member_rev:
  assumes "mapE g xs = Inr ys" and "y \<in> set ys"
  shows "\<exists>x \<in> set xs. g x = Inr y"
  using assms by (induction xs arbitrary: ys) (auto simp: bindE_eq_Inr)

lemma set_range_simps [simp]:
  "set (range_i V) = {0..V - 1}" "set (range_j V) = {0..V - 1}"
  "set (range_i' V) = {1..V - 1}" "set (range_j' V) = {1..V - 1}"
  "set (range_k K) = {1..K}" "set (range_t T) = {1..T}"
  by (simp_all add: range_i_def range_j_def range_i'_def range_j'_def range_k_def range_t_def)

lemma sum_list_range_simps:
  "sum_list (map h (range_i V)) = (\<Sum>i = 0..V - 1. h i)"
  "sum_list (map h (range_j V)) = (\<Sum>i = 0..V - 1. h i)"
  "sum_list (map h (range_i' V)) = (\<Sum>i = 1..V - 1. h i)"
  "sum_list (map h (range_j' V)) = (\<Sum>i = 1..V - 1. h i)"
  "sum_list (map h (range_k K)) = (\<Sum>k = 1..K. h k)"
  "sum_list (map h (range_t T)) = (\<Sum>t = 1..T. h t)"
  by (simp_all add: range_i_def range_j_def range_i'_def range_j'_def range_k_def range_t_def
      sum_list_py_range)

lemma value_Q_sum:
  "sum_list (map (lp_value \<sigma>) [aff_var (Q i k s). s \<leftarrow> py_range 1 (t + 1), k \<leftarrow> range_k K])
     = (\<Sum>s = 1..t. \<Sum>k = 1..K. \<sigma> (Q i k s))"
proof -
  have "sum_list (map (lp_value \<sigma>) [aff_var (Q i k s). s \<leftarrow> py_range 1 (t + 1), k \<leftarrow> range_k K])
      = sum_list (map (\<lambda>(s, k). \<sigma> (Q i k s)) [(s, k). s \<leftarrow> py_range 1 (t + 1), k \<leftarrow> range_k K])"
    by (simp add: map_concat comp_def)
  also have "\<dots> = (\<Sum>s = 1..t. \<Sum>k = 1..K. \<sigma> (Q i k s))"
    by (simp add: sum_list_pairs sum_list_py_range sum_list_range_simps)
  finally show ?thesis .
qed

lemma constraint_2_value:
  assumes "constraint_2 K d_mu i t = Inr c" and "0 \<le> i"
  shows "sense c = LpConstraintEQ"
    and "lp_value \<sigma> (expr c) = \<sigma> (I i t)
      - ((\<Sum>s = 1..t. \<Sum>k = 1..K. \<sigma> (Q i k s)) - (\<Sum>s = 1..t - 1. at2 d_mu i s + \<sigma> (W i s)))"
proof -
  from assms(1) obtain es where
    es: "mapE (\<lambda>s. bindE (getitem2 d_mu i s) (\<lambda>d. Inr (aff_add (aff_num d) (aff_var (W i s)))))
           (py_range 1 t) = Inr es"
    and c: "c = lp_eq (aff_var (I i t))
          (aff_sub (lpSum [aff_var (Q i k s). s \<leftarrow> py_range 1 (t + 1), k \<leftarrow> range_k K])
                   (lpSum es))"
    by (auto simp: constraint_2_def bindE_eq_Inr)
  have "sum_list (map (lp_value \<sigma>) es)
      = sum_list (map (\<lambda>s. at2 d_mu i s + \<sigma> (W i s)) (py_range 1 t))"
    using es by (rule mapE_sum_list) (use assms(2) in \<open>auto simp: bindE_eq_Inr dest: getitem2_Inr_D\<close>)
  then have w: "sum_list (map (lp_value \<sigma>) es) = (\<Sum>s = 1..t - 1. at2 d_mu i s + \<sigma> (W i s))"
    by (simp add: sum_list_py_range)
  show "sense c = LpConstraintEQ" by (simp add: c)
  show "lp_value \<sigma> (expr c) = \<sigma> (I i t)
      - ((\<Sum>s = 1..t. \<Sum>k = 1..K. \<sigma> (Q i k s)) - (\<Sum>s = 1..t - 1. at2 d_mu i s + \<sigma> (W i s)))"
    by (simp add: c w value_Q_sum)
qed

lemma constraint_45_before:
  "t < m \<Longrightarrow> constraint_45 V T m d_mu i t = Inr (lp_eq (aff_var (W i t)) (aff_num 0))"
  by (simp add: constraint_45_def)

lemma W_at_Inr_D: "W_at V T i t = Inr w \<Longrightarrow> w = W i t \<and> 1 \<le> i \<and> i \<le> V - 1 \<and> 1 \<le> t \<and> t \<le> T"
  by (auto simp: W_at_def split: if_splits)

lemma I_at_Inr_D: "I_at V T i t = Inr w \<Longrightarrow> w = I i t \<and> 1 \<le> i \<and> i \<le> V - 1 \<and> 1 \<le> t \<and> t \<le> T"
  by (auto simp: I_at_def split: if_splits)

lemma constraint_45_value:
  assumes "constraint_45 V T m d_mu i t = Inr c" and "m \<le> t" and "0 \<le> i" and "1 \<le> t"
  shows "sense c = LpConstraintGE"
    and "lp_value \<sigma> (expr c) = \<sigma> (W i t)
      - (\<sigma> (I i (t - m + 1)) - (\<Sum>a = t - m + 2..t. at2 d_mu i a)
           - (\<Sum>a = t - m + 2..t - 1. \<sigma> (W i a)))"
proof -
  from assms(1,2) obtain inv ds ws where
    inv: "I_at V T i (t - m + 1) = Inr inv"
    and ds: "mapE (\<lambda>a. getitem2 d_mu i a) (py_range (t - m + 2) (t + 1)) = Inr ds"
    and ws: "mapE (\<lambda>a. W_at V T i a) (py_range (t - m + 2) t) = Inr ws"
    and c: "c = lp_ge (aff_var (W i t))
            (aff_sub (aff_sub (aff_var inv) (lpSum (map aff_num ds))) (lpSum (map aff_var ws)))"
    by (auto simp: constraint_45_def bindE_eq_Inr)
  have i: "inv = I i (t - m + 1)" using inv by (auto dest: I_at_Inr_D)
  have "sum_list (map (\<lambda>d. d) ds) = sum_list (map (\<lambda>a. at2 d_mu i a) (py_range (t - m + 2) (t + 1)))"
    using ds by (rule mapE_sum_list) (use assms(2-4) in \<open>auto dest: getitem2_Inr_D\<close>)
  then have d: "sum_list (map (lp_value \<sigma> \<circ> aff_num) ds) = (\<Sum>a = t - m + 2..t. at2 d_mu i a)"
    by (simp add: sum_list_py_range comp_def)
  have "sum_list (map \<sigma> ws) = sum_list (map (\<lambda>a. \<sigma> (W i a)) (py_range (t - m + 2) t))"
    using ws by (rule mapE_sum_list) (auto dest: W_at_Inr_D)
  then have w: "sum_list (map (lp_value \<sigma> \<circ> aff_var) ws) = (\<Sum>a = t - m + 2..t - 1. \<sigma> (W i a))"
    by (simp add: sum_list_py_range comp_def)
  show "sense c = LpConstraintGE" by (simp add: c)
  show "lp_value \<sigma> (expr c) = \<sigma> (W i t)
      - (\<sigma> (I i (t - m + 1)) - (\<Sum>a = t - m + 2..t. at2 d_mu i a)
           - (\<Sum>a = t - m + 2..t - 1. \<sigma> (W i a)))"
    by (simp add: c i d w)
qed

lemma constraint_21_value:
  assumes "constraint_21 K right_21 i t = Inr c"
  shows "\<exists>bound. nd_getitem right_21 i t = Inr bound \<and> sense c = LpConstraintGE
      \<and> (\<forall>\<sigma>. lp_value \<sigma> (expr c)
            = (\<Sum>s = 1..t. \<Sum>k = 1..K. \<sigma> (Q i k s)) - (\<Sum>s = 1..t - 1. \<sigma> (W i s)) - bound)"
proof -
  from assms obtain bound where b: "nd_getitem right_21 i t = Inr bound"
    and c: "c = lp_ge
         (aff_sub (lpSum [aff_var (Q i k s). s \<leftarrow> py_range 1 (t + 1), k \<leftarrow> range_k K])
                  (lpSum [aff_var (W i s). s \<leftarrow> py_range 1 t]))
         (aff_num bound)"
    by (auto simp: constraint_21_def bindE_eq_Inr)
  have "lp_value \<sigma> (expr c)
      = (\<Sum>s = 1..t. \<Sum>k = 1..K. \<sigma> (Q i k s)) - (\<Sum>s = 1..t - 1. \<sigma> (W i s)) - bound" for \<sigma>
    by (simp add: c value_Q_sum comp_def sum_list_py_range)
  with b c show ?thesis by simp
qed

lemma satisfies_constraint_7:
  "satisfies \<sigma> (constraint_7 V j k t)
     \<longleftrightarrow> (\<Sum>i \<in> {0..V - 1} - {j}. \<sigma> (X i j k t)) = (\<Sum>i \<in> {0..V - 1} - {j}. \<sigma> (X j i k t))"
proof -
  have 1: "map (lp_value \<sigma>) (map (\<lambda>i. if i \<noteq> j then aff_var (X i j k t) else aff_num 0) (range_i V))
      = map (\<lambda>i. if i \<noteq> j then \<sigma> (X i j k t) else 0) (py_range 0 V)"
    by (simp add: range_i_def)
  have 2: "map (lp_value \<sigma>) (map (\<lambda>i. if i \<noteq> j then aff_var (X j i k t) else aff_num 0) (range_i V))
      = map (\<lambda>i. if i \<noteq> j then \<sigma> (X j i k t) else 0) (py_range 0 V)"
    by (simp add: range_i_def)
  show ?thesis
    unfolding constraint_7_def satisfies_lp_eq lp_value_lpSum 1 2 sum_list_if_neq ..
qed

lemma satisfies_constraint_10:
  "satisfies \<sigma> (constraint_10 c i j k t) \<longleftrightarrow> \<sigma> (F i j k t) \<le> c * \<sigma> (X j i k t)"
  by (simp add: constraint_10_def)

lemma build_InrE:
  assumes "build norm_ppf P = Inr nb"
  obtains lambda' gamma right_21 waste fuel driver c2 c45 c21 where
    "lambda_coef (par_xi P) (par_kappa P) (par_psi P) = Inr lambda'"
    "gamma_coef (par_epsilon P) (par_varpi P) = Inr gamma"
    "right_of_const_21 (par_V P) (par_T P) (par_d_mu P) (par_C P)
       (stats_norm_ppf_at norm_ppf (par_alpha P)) = Inr right_21"
    "waste_cost (par_V P) (par_T P) (par_m P) (par_p P) = Inr waste"
    "fuel_cost (par_V P) (par_K P) (par_T P) (par_a P) lambda'
       (y_coef (par_k_e P) (par_N_e P) (par_V_e P)) gamma
       (beta_coef (par_C_d P) (par_A_e P) (par_rho P))
       (s_coef (par_g P) (par_phi P) (par_C_r P)) (par_mu P) (par_f P) (par_l P) = Inr fuel"
    "driver_cost (par_V P) (par_K P) (par_T P) (par_a P) (par_f P) (par_r P) = Inr driver"
    "constraints_2 (par_V P) (par_K P) (par_T P) (par_d_mu P) = Inr c2"
    "constraints_45 (par_V P) (par_T P) (par_m P) (par_d_mu P) = Inr c45"
    "constraints_21 (par_V P) (par_K P) (par_T P) right_21 = Inr c21"
    "nb_inventory_cost nb = inventory_cost (par_V P) (par_T P) (par_h P)"
    "nb_waste_cost nb = waste" "nb_fuel_cost nb = fuel" "nb_driver_cost nb = driver"
    "direction (nb_problem nb) = LpMinimize"
    "objective (nb_problem nb)
       = aff_add (aff_add (aff_add (inventory_cost (par_V P) (par_T P) (par_h P)) waste) fuel) driver"
    "constraints (nb_problem nb)
       = X_diagonal (par_V P) (par_K P) (par_T P) @ F_diagonal (par_V P) (par_K P) (par_T P)
         @ c2 @ constraints_3 (par_V P) (par_T P) @ c45
         @ constraints_7 (par_V P) (par_K P) (par_T P)
         @ constraints_8 (par_V P) (par_K P) (par_T P)
         @ constraints_9 (par_V P) (par_K P) (par_T P)
         @ constraints_10 (par_V P) (par_K P) (par_T P) (par_c P) @ c21"
    "variables (nb_problem nb)
       = X_vars (par_V P) (par_K P) (par_T P) @ F_vars (par_V P) (par_K P) (par_T P)
         @ I_vars (par_V P) (par_T P) @ Ip_vars (par_V P) (par_T P)
         @ W_vars (par_V P) (par_T P) @ Q_vars (par_V P) (par_K P) (par_T P)"
  using assms unfolding build_def bindE_eq_Inr
  by (elim exE conjE) (rule that, auto)

section \<open>When the cells run without raising\<close>

lemma mapE_Inr_map: "mapE g xs = Inr ys \<Longrightarrow> map Inr ys = map g xs"
  by (induction xs arbitrary: ys) (auto simp: bindE_eq_Inr)

lemma mapE_succeeds:
  "(\<And>x. x \<in> set xs \<Longrightarrow> \<exists>y. g x = Inr y) \<Longrightarrow> \<exists>ys. mapE g xs = Inr ys"
proof (induction xs)
  case Nil
  then show ?case by simp
next
  case (Cons x xs)
  then obtain y ys where "g x = Inr y" "mapE g xs = Inr ys"
    by (metis list.set_intros(1) list.set_intros(2))
  then show ?case by simp
qed

lemma set_pairs [simp]:
  "set [(x, y). x \<leftarrow> xs, y \<leftarrow> ys] = set xs \<times> set ys"
  by auto

lemma set_quads:
  "(t, k, j, i) \<in> set [(t, k, j, i). t \<leftarrow> ts, k \<leftarrow> ks, j \<leftarrow> js, i \<leftarrow> is]
     \<longleftrightarrow> t \<in> set ts \<and> k \<in> set ks \<and> j \<in> set js \<and> i \<in> set is"
  by auto

lemma W_at_Inr_I: "1 \<le> i \<Longrightarrow> i \<le> V - 1 \<Longrightarrow> 1 \<le> t \<Longrightarrow> t \<le> T \<Longrightarrow> W_at V T i t = Inr (W i t)"
  by (simp add: W_at_def)

lemma I_at_Inr_I: "1 \<le> i \<Longrightarrow> i \<le> V - 1 \<Longrightarrow> 1 \<le> t \<Longrightarrow> t \<le> T \<Longrightarrow> I_at V T i t = Inr (I i t)"
  by (simp add: I_at_def)

lemma waste_cost_succeeds:
  assumes "1 \<le> m"
  shows "\<exists>e. waste_cost V T m p = Inr e"
proof -
  have "\<exists>ys. mapE (\<lambda>(i, t). bindE (W_at V T i t) (\<lambda>w. Inr (aff_scale p (aff_var w))))
              [(i, t). i \<leftarrow> range_i' V, t \<leftarrow> py_range m (T + 1)] = Inr ys"
  proof (rule mapE_succeeds)
    fix x assume "x \<in> set [(i, t). i \<leftarrow> range_i' V, t \<leftarrow> py_range m (T + 1)]"
    then obtain i t where x: "x = (i, t)" and "1 \<le> i" "i \<le> V - 1" "m \<le> t" "t \<le> T" by auto
    then have "W_at V T i t = Inr (W i t)" using assms by (intro W_at_Inr_I) auto
    then show "\<exists>y. (case x of (i, t) \<Rightarrow> bindE (W_at V T i t) (\<lambda>w. Inr (aff_scale p (aff_var w)))) = Inr y"
      by (simp add: x)
  qed
  then show ?thesis by (auto simp: waste_cost_def)
qed

lemma fuel_cost_succeeds:
  assumes "table_shape a V V"
  shows "\<exists>e. fuel_cost V K T a lambda' y gamma beta s' mu f l = Inr e"
proof -
  have "\<exists>ys. mapE (\<lambda>(t, k, j, i). fuel_term a lambda' y gamma beta s' mu f l i j k t)
              [(t, k, j, i). t \<leftarrow> range_t T, k \<leftarrow> range_k K, j \<leftarrow> range_j V, i \<leftarrow> range_i V] = Inr ys"
  proof (rule mapE_succeeds)
    fix x assume "x \<in> set [(t, k, j, i). t \<leftarrow> range_t T, k \<leftarrow> range_k K, j \<leftarrow> range_j V, i \<leftarrow> range_i V]"
    then obtain t k j i where x: "x = (t, k, j, i)" and "0 \<le> i" "i < V" "0 \<le> j" "j < V" by auto
    then have "getitem2 a i j = Inr (at2 a i j)"
      using assms by (intro getitem2_table_shape [of a V V]) auto
    then show "\<exists>e. (case x of (t, k, j, i) \<Rightarrow> fuel_term a lambda' y gamma beta s' mu f l i j k t) = Inr e"
      by (simp add: x fuel_term_def)
  qed
  then show ?thesis by (auto simp: fuel_cost_def)
qed

lemma driver_cost_succeeds:
  assumes "table_shape a V V" and "f \<noteq> 0"
  shows "\<exists>e. driver_cost V K T a f r = Inr e"
proof -
  have "\<exists>ys. mapE (\<lambda>(t, k, j, i). driver_term a f r i j k t)
              [(t, k, j, i). t \<leftarrow> range_t T, k \<leftarrow> range_k K, j \<leftarrow> range_j V, i \<leftarrow> range_i V] = Inr ys"
  proof (rule mapE_succeeds)
    fix x assume "x \<in> set [(t, k, j, i). t \<leftarrow> range_t T, k \<leftarrow> range_k K, j \<leftarrow> range_j V, i \<leftarrow> range_i V]"
    then obtain t k j i where x: "x = (t, k, j, i)" and "0 \<le> i" "i < V" "0 \<le> j" "j < V" by auto
    then have "getitem2 a i j = Inr (at2 a i j)"
      using assms by (intro getitem2_table_shape [of a V V]) auto
    then show "\<exists>y. (case x of (t, k, j, i) \<Rightarrow> driver_term a f r i j k t) = Inr y"
      using assms(2) by (simp add: x driver_term_def py_div_def)
  qed
  then show ?thesis by (auto simp: driver_cost_def)
qed

lemma constraint_2_succeeds:
  assumes "table_shape d_mu V (T + 1)" and "1 \<le> i" and "i \<le> V - 1" and "t \<le> T"
  shows "\<exists>c. constraint_2 K d_mu i t = Inr c"
proof -
  have "\<exists>es. mapE (\<lambda>s. bindE (getitem2 d_mu i s) (\<lambda>d. Inr (aff_add (aff_num d) (aff_var (W i s)))))
           (py_range 1 t) = Inr es"
  proof (rule mapE_succeeds)
    fix s assume "s \<in> set (py_range 1 t)"
    then have "getitem2 d_mu i s = Inr (at2 d_mu i s)"
      using assms by (intro getitem2_table_shape [of d_mu V "T + 1"]) auto
    then show "\<exists>y. bindE (getitem2 d_mu i s) (\<lambda>d. Inr (aff_add (aff_num d) (aff_var (W i s)))) = Inr y"
      by simp
  qed
  then show ?thesis by (auto simp: constraint_2_def)
qed

lemma constraints_2_succeeds:
  assumes "table_shape d_mu V (T + 1)"
  shows "\<exists>cs. constraints_2 V K T d_mu = Inr cs"
  unfolding constraints_2_def
proof (rule mapE_succeeds)
  fix x assume "x \<in> set [(t, i). t \<leftarrow> range_t T, i \<leftarrow> range_i' V]"
  then obtain t i where x: "x = (t, i)" and "1 \<le> i" "i \<le> V - 1" "t \<le> T" by auto
  with constraint_2_succeeds [OF assms, of i t K]
  show "\<exists>y. (case x of (t, i) \<Rightarrow> constraint_2 K d_mu i t) = Inr y" by simp
qed

lemma constraint_45_succeeds:
  assumes "table_shape d_mu V (T + 1)" and "1 \<le> m"
    and "1 \<le> i" and "i \<le> V - 1" and "1 \<le> t" and "t \<le> T"
  shows "\<exists>c. constraint_45 V T m d_mu i t = Inr c"
proof (cases "m \<le> t")
  case False
  then show ?thesis by (simp add: constraint_45_def)
next
  case True
  have inv: "I_at V T i (t - m + 1) = Inr (I i (t - m + 1))"
    using assms True by (intro I_at_Inr_I) auto
  have "\<exists>ds. mapE (\<lambda>a. getitem2 d_mu i a) (py_range (t - m + 2) (t + 1)) = Inr ds"
  proof (rule mapE_succeeds)
    fix a assume "a \<in> set (py_range (t - m + 2) (t + 1))"
    then have "getitem2 d_mu i a = Inr (at2 d_mu i a)"
      using assms True by (intro getitem2_table_shape [of d_mu V "T + 1"]) auto
    then show "\<exists>y. getitem2 d_mu i a = Inr y" by simp
  qed
  moreover have "\<exists>ws. mapE (\<lambda>a. W_at V T i a) (py_range (t - m + 2) t) = Inr ws"
  proof (rule mapE_succeeds)
    fix a assume "a \<in> set (py_range (t - m + 2) t)"
    then have "W_at V T i a = Inr (W i a)"
      using assms True by (intro W_at_Inr_I) auto
    then show "\<exists>y. W_at V T i a = Inr y" by simp
  qed
  ultimately show ?thesis using True inv by (auto simp: constraint_45_def)
qed

lemma constraints_45_succeeds:
  assumes "table_shape d_mu V (T + 1)" and "1 \<le> m"
  shows "\<exists>cs. constraints_45 V T m d_mu = Inr cs"
  unfolding constraints_45_def
proof (rule mapE_succeeds)
  fix x assume "x \<in> set [(t, i). t \<leftarrow> range_t T, i \<leftarrow> range_i' V]"
  then obtain t i where x: "x = (t, i)" and "1 \<le> i" "i \<le> V - 1" "1 \<le> t" "t \<le> T" by auto
  with constraint_45_succeeds [OF assms, of i t]
  show "\<exists>y. (case x of (t, i) \<Rightarrow> constraint_45 V T m d_mu i t) = Inr y" by simp
qed

lemma constraints_21_succeeds:
  assumes "nrows right_21 = V" and "ncols right_21 = T + 1"
  shows "\<exists>cs. constraints_21 V K T right_21 = Inr cs"
  unfolding constraints_21_def
proof (rule mapE_succeeds)
  fix x assume "x \<in> set [(t, i). t \<leftarrow> range_t T, i \<leftarrow> range_i' V]"
  then obtain t i where x: "x = (t, i)" and "1 \<le> i" "i \<le> V - 1" "1 \<le> t" "t \<le> T" by auto
  then have "nd_getitem right_21 i t = Inr (cell right_21 i t)"
    using assms by (intro nd_getitem_Inr_I) auto
  then show "\<exists>y. (case x of (t, i) \<Rightarrow> constraint_21 K right_21 i t) = Inr y"
    by (simp add: x constraint_21_def)
qed

lemma build_succeeds:
  assumes "par_kappa P * par_psi P \<noteq> 0" and "par_epsilon P * par_varpi P \<noteq> 0"
    and "par_f P \<noteq> 0"
    and "0 \<le> par_V P" and "0 \<le> par_T P" and "1 \<le> par_m P"
    and "table_shape (par_d_mu P) (par_V P) (par_T P + 1)"
    and "table_shape (par_a P) (par_V P) (par_V P)"
  shows "\<exists>nb. build norm_ppf P = Inr nb"
proof -
  obtain lambda' where 1: "lambda_coef (par_xi P) (par_kappa P) (par_psi P) = Inr lambda'"
    using assms(1) by (simp add: lambda_coef_def py_div_def)
  obtain gamma where 2: "gamma_coef (par_epsilon P) (par_varpi P) = Inr gamma"
    using assms(2) by (simp add: gamma_coef_def py_div_def)
  obtain right_21 where 3: "right_of_const_21 (par_V P) (par_T P) (par_d_mu P) (par_C P)
       (stats_norm_ppf_at norm_ppf (par_alpha P)) = Inr right_21"
    using right_of_const_21_succeeds [OF assms(4,5,7)] by blast
  obtain waste where 4: "waste_cost (par_V P) (par_T P) (par_m P) (par_p P) = Inr waste"
    using waste_cost_succeeds [OF assms(6)] by blast
  obtain fuel where 5: "fuel_cost (par_V P) (par_K P) (par_T P) (par_a P) lambda'
       (y_coef (par_k_e P) (par_N_e P) (par_V_e P)) gamma
       (beta_coef (par_C_d P) (par_A_e P) (par_rho P))
       (s_coef (par_g P) (par_phi P) (par_C_r P)) (par_mu P) (par_f P) (par_l P) = Inr fuel"
    using fuel_cost_succeeds [OF assms(8)] by blast
  obtain driver where 6: "driver_cost (par_V P) (par_K P) (par_T P) (par_a P) (par_f P) (par_r P)
       = Inr driver"
    using driver_cost_succeeds [OF assms(8,3)] by blast
  obtain c2 where 7: "constraints_2 (par_V P) (par_K P) (par_T P) (par_d_mu P) = Inr c2"
    using constraints_2_succeeds [OF assms(7)] by blast
  obtain c45 where 8: "constraints_45 (par_V P) (par_T P) (par_m P) (par_d_mu P) = Inr c45"
    using constraints_45_succeeds [OF assms(7,6)] by blast
  from right_of_const_21_cells [OF 3]
  have "nrows right_21 = par_V P" "ncols right_21 = par_T P + 1" by simp_all
  then obtain c21 where 9: "constraints_21 (par_V P) (par_K P) (par_T P) right_21 = Inr c21"
    using constraints_21_succeeds by blast
  show ?thesis
    by (simp add: build_def 1 2 3 4 5 6 7 8 9)
qed

lemma tiny_builds: "\<exists>nb. build norm_ppf tiny = Inr nb"
  by (rule build_succeeds) (simp_all add: tiny_def table_shape_def)

section \<open>Constraints of the built problem\<close>

lemma constraints_2_member:
  assumes "constraints_2 V K T d_mu = Inr c2" and "1 \<le> i" "i \<le> V - 1" "1 \<le> t" "t \<le> T"
  shows "\<exists>c \<in> set c2. constraint_2 K d_mu i t = Inr c"
proof -
  have "(t, i) \<in> set [(t, i). t \<leftarrow> range_t T, i \<leftarrow> range_i' V]"
    using assms(2-) by (simp only: set_pairs set_range_simps) simp
  from mapE_member [OF assms(1) [unfolded constraints_2_def] this] show ?thesis by auto
qed

lemma constraints_45_member:
  assumes "constraints_45 V T m d_mu = Inr c45" and "1 \<le> i" "i \<le> V - 1" "1 \<le> t" "t \<le> T"
  shows "\<exists>c \<in> set c45. constraint_45 V T m d_mu i t = Inr c"
proof -
  have "(t, i) \<in> set [(t, i). t \<leftarrow> range_t T, i \<leftarrow> range_i' V]"
    using assms(2-) by (simp only: set_pairs set_range_simps) simp
  from mapE_member [OF assms(1) [unfolded constraints_45_def] this] show ?thesis by auto
qed

lemma constraints_21_member:
  assumes "constraints_21 V K T right_21 = Inr c21" and "1 \<le> i" "i \<le> V - 1" "1 \<le> t" "t \<le> T"
  shows "\<exists>c \<in> set c21. constraint_21 K right_21 i t = Inr c"
proof -
  have "(t, i) \<in> set [(t, i). t \<leftarrow> range_t T, i \<leftarrow> range_i' V]"
    using assms(2-) by (simp only: set_pairs set_range_simps) simp
  from mapE_member [OF assms(1) [unfolded constraints_21_def] this] show ?thesis by auto
qed

section \<open>The four cost expressions\<close>

lemma inventory_cost_value:
  "lp_value \<sigma> (inventory_cost V T h) = h * (\<Sum>i = 1..V - 1. \<Sum>t = 1..T. \<sigma> (Ip i t))"
proof -
  have "map (lp_value \<sigma>) [aff_scale h (aff_var (Ip i t)). i \<leftarrow> range_i' V, t \<leftarrow> range_t T]
      = map (\<lambda>(i, t). h * \<sigma> (Ip i t)) [(i, t). i \<leftarrow> range_i' V, t \<leftarrow> range_t T]"
    by (simp add: map_concat comp_def)
  then have "lp_value \<sigma> (inventory_cost V T h) = (\<Sum>i = 1..V - 1. \<Sum>t = 1..T. h * \<sigma> (Ip i t))"
    by (simp add: inventory_cost_def sum_list_pairs sum_list_range_simps)
  then show ?thesis by (simp add: sum_distrib_left)
qed

lemma waste_cost_value:
  assumes "waste_cost V T m p = Inr e"
  shows "lp_value \<sigma> e = p * (\<Sum>i = 1..V - 1. \<Sum>t = m..T. \<sigma> (W i t))"
proof -
  from assms obtain es where
    es: "mapE (\<lambda>(i, t). bindE (W_at V T i t) (\<lambda>w. Inr (aff_scale p (aff_var w))))
              [(i, t). i \<leftarrow> range_i' V, t \<leftarrow> py_range m (T + 1)] = Inr es"
    and e: "e = lpSum es"
    by (auto simp: waste_cost_def bindE_eq_Inr)
  have "sum_list (map (lp_value \<sigma>) es)
      = sum_list (map (\<lambda>(i, t). p * \<sigma> (W i t)) [(i, t). i \<leftarrow> range_i' V, t \<leftarrow> py_range m (T + 1)])"
    using es by (rule mapE_sum_list) (auto simp: bindE_eq_Inr dest!: W_at_Inr_D)
  then have "lp_value \<sigma> e = (\<Sum>i = 1..V - 1. \<Sum>t = m..T. p * \<sigma> (W i t))"
    by (simp add: e sum_list_pairs sum_list_range_simps sum_list_py_range)
  then show ?thesis by (simp add: sum_distrib_left)
qed

lemma sum_list_edges:
  fixes h :: "int \<Rightarrow> int \<Rightarrow> int \<Rightarrow> int \<Rightarrow> real"
  shows "sum_list (map (\<lambda>(t, k, j, i). if i \<noteq> j then h t k j i else 0)
           [(t, k, j, i). t \<leftarrow> range_t T, k \<leftarrow> range_k K, j \<leftarrow> range_j V, i \<leftarrow> range_i V])
     = (\<Sum>t = 1..T. \<Sum>k = 1..K. \<Sum>j = 0..V - 1. \<Sum>i \<in> {0..V - 1} - {j}. h t k j i)"
proof -
  have "sum_list (map (\<lambda>i. if i \<noteq> j then h t k j i else 0) (range_i V))
      = (\<Sum>i \<in> {0..V - 1} - {j}. h t k j i)" for t k j
    unfolding range_i_def by (rule sum_list_if_neq)
  then show ?thesis
    by (simp add: sum_list_quads sum_list_range_simps(2,5,6))
qed

lemma fuel_term_value:
  assumes "fuel_term a lambda' y gamma beta s' mu f l i j k t = Inr e" and "0 \<le> i" and "0 \<le> j"
  shows "lp_value \<sigma> e =
    (if i \<noteq> j then
       l * (lambda' * (y * at2 a i j * \<sigma> (X i j k t)
                      + gamma * beta * at2 a i j * f\<^sup>2 * \<sigma> (X i j k t)
                      + gamma * s' * (mu * \<sigma> (X i j k t) + \<sigma> (F i j k t)) * at2 a i j))
     else 0)"
proof (cases "i = j")
  case True
  with assms(1) show ?thesis by (auto simp: fuel_term_def)
next
  case False
  with assms(1) obtain aij where g: "getitem2 a i j = Inr aij"
    and e: "e = aff_scale l (aff_scale lambda'
            (aff_add
              (aff_add (aff_scale (y * aij) (aff_var (X i j k t)))
                       (aff_scale (gamma * beta * aij * f ^ 2) (aff_var (X i j k t))))
              (aff_scale aij (aff_scale (gamma * s')
                 (aff_add (aff_scale mu (aff_var (X i j k t))) (aff_var (F i j k t)))))))"
    by (auto simp: fuel_term_def bindE_eq_Inr)
  from getitem2_Inr_D [OF g assms(2,3)] have "aij = at2 a i j" .
  then show ?thesis using False by (simp add: e algebra_simps)
qed

lemma fuel_cost_value:
  assumes "fuel_cost V K T a lambda' y gamma beta s' mu f l = Inr e"
  shows "lp_value \<sigma> e =
    l * (\<Sum>t = 1..T. \<Sum>k = 1..K. \<Sum>j = 0..V - 1. \<Sum>i \<in> {0..V - 1} - {j}.
           lambda' * (y * at2 a i j * \<sigma> (X i j k t)
                      + gamma * beta * at2 a i j * f\<^sup>2 * \<sigma> (X i j k t)
                      + gamma * s' * (mu * \<sigma> (X i j k t) + \<sigma> (F i j k t)) * at2 a i j))"
proof -
  let ?h = "\<lambda>t k j i. l * (lambda' * (y * at2 a i j * \<sigma> (X i j k t)
                      + gamma * beta * at2 a i j * f\<^sup>2 * \<sigma> (X i j k t)
                      + gamma * s' * (mu * \<sigma> (X i j k t) + \<sigma> (F i j k t)) * at2 a i j))"
  from assms obtain es where
    es: "mapE (\<lambda>(t, k, j, i). fuel_term a lambda' y gamma beta s' mu f l i j k t)
              [(t, k, j, i). t \<leftarrow> range_t T, k \<leftarrow> range_k K, j \<leftarrow> range_j V, i \<leftarrow> range_i V]
         = Inr es"
    and e: "e = lpSum es"
    by (auto simp: fuel_cost_def bindE_eq_Inr)
  have "sum_list (map (lp_value \<sigma>) es)
      = sum_list (map (\<lambda>(t, k, j, i). if i \<noteq> j then ?h t k j i else 0)
           [(t, k, j, i). t \<leftarrow> range_t T, k \<leftarrow> range_k K, j \<leftarrow> range_j V, i \<leftarrow> range_i V])"
    using es
  proof (rule mapE_sum_list)
    fix x e'
    assume x: "x \<in> set [(t, k, j, i). t \<leftarrow> range_t T, k \<leftarrow> range_k K, j \<leftarrow> range_j V, i \<leftarrow> range_i V]"
      and r: "(case x of (t, k, j, i) \<Rightarrow> fuel_term a lambda' y gamma beta s' mu f l i j k t) = Inr e'"
    from x obtain t k j i where xe: "x = (t, k, j, i)" and "0 \<le> i" "0 \<le> j" by auto
    with r fuel_term_value [of a lambda' y gamma beta s' mu f l i j k t e' \<sigma>]
    show "lp_value \<sigma> e' = (case x of (t, k, j, i) \<Rightarrow> if i \<noteq> j then ?h t k j i else 0)"
      by simp
  qed
  then have "lp_value \<sigma> e
      = (\<Sum>t = 1..T. \<Sum>k = 1..K. \<Sum>j = 0..V - 1. \<Sum>i \<in> {0..V - 1} - {j}. ?h t k j i)"
    by (simp only: e lp_value_lpSum sum_list_edges)
  then show ?thesis by (simp only: sum_distrib_left)
qed

lemma driver_term_value:
  assumes "driver_term a f r i j k t = Inr e" and "0 \<le> i" and "0 \<le> j"
  shows "lp_value \<sigma> e = (if i \<noteq> j then r * (at2 a i j / f * \<sigma> (X i j k t)) else 0)"
proof (cases "i = j")
  case True
  with assms(1) show ?thesis by (auto simp: driver_term_def)
next
  case False
  with assms(1) obtain aij q where g: "getitem2 a i j = Inr aij"
    and q: "py_div aij f = Inr q"
    and e: "e = aff_scale r (aff_scale q (aff_var (X i j k t)))"
    by (auto simp: driver_term_def bindE_eq_Inr)
  from getitem2_Inr_D [OF g assms(2,3)] have "aij = at2 a i j" .
  moreover from q have "q = aij / f" by (auto simp: py_div_def split: if_splits)
  ultimately show ?thesis using False by (simp add: e)
qed

lemma driver_cost_value:
  assumes "driver_cost V K T a f r = Inr e"
  shows "lp_value \<sigma> e =
    r * (\<Sum>t = 1..T. \<Sum>k = 1..K. \<Sum>j = 0..V - 1. \<Sum>i \<in> {0..V - 1} - {j}.
           at2 a i j / f * \<sigma> (X i j k t))"
proof -
  let ?h = "\<lambda>t k j i. r * (at2 a i j / f * \<sigma> (X i j k t))"
  from assms obtain es where
    es: "mapE (\<lambda>(t, k, j, i). driver_term a f r i j k t)
              [(t, k, j, i). t \<leftarrow> range_t T, k \<leftarrow> range_k K, j \<leftarrow> range_j V, i \<leftarrow> range_i V]
         = Inr es"
    and e: "e = lpSum es"
    by (auto simp: driver_cost_def bindE_eq_Inr)
  have "sum_list (map (lp_value \<sigma>) es)
      = sum_list (map (\<lambda>(t, k, j, i). if i \<noteq> j then ?h t k j i else 0)
           [(t, k, j, i). t \<leftarrow> range_t T, k \<leftarrow> range_k K, j \<leftarrow> range_j V, i \<leftarrow> range_i V])"
    using es
  proof (rule mapE_sum_list)
    fix x e'
    assume x: "x \<in> set [(t, k, j, i). t \<leftarrow> range_t T, k \<leftarrow> range_k K, j \<leftarrow> range_j V, i \<leftarrow> range_i V]"
      and r: "(case x of (t, k, j, i) \<Rightarrow> driver_term a f r i j k t) = Inr e'"
    from x obtain t k j i where xe: "x = (t, k, j, i)" and "0 \<le> i" "0 \<le> j" by auto
    with r driver_term_value [of a f r i j k t e' \<sigma>]
    show "lp_value \<sigma> e' = (case x of (t, k, j, i) \<Rightarrow> if i \<noteq> j then ?h t k j i else 0)"
      by simp
  qed
  then have "lp_value \<sigma> e
      = (\<Sum>t = 1..T. \<Sum>k = 1..K. \<Sum>j = 0..V - 1. \<Sum>i \<in> {0..V - 1} - {j}. ?h t k j i)"
    by (simp only: e lp_value_lpSum sum_list_edges)
  then show ?thesis by (simp only: sum_distrib_left)
qed

section \<open>Feasible assignments\<close>

lemma feasible_constraint:
  "feasible \<sigma> prob \<Longrightarrow> c \<in> set (constraints prob) \<Longrightarrow> satisfies \<sigma> c"
  by (simp add: feasible_def list_all_iff)

lemma feasible_variable:
  "feasible \<sigma> prob \<Longrightarrow> d \<in> set (variables prob) \<Longrightarrow> within_domain \<sigma> d"
  by (simp add: feasible_def list_all_iff)

lemma feasible_forE:
  assumes "feasible_for norm_ppf P \<sigma>"
  obtains nb where "build norm_ppf P = Inr nb" and "feasible \<sigma> (nb_problem nb)"
  using assms by (auto simp: feasible_for_def split: sum.splits)

lemma in_set_comp3:
  "t \<in> set ts \<Longrightarrow> k \<in> set ks \<Longrightarrow> j \<in> set js \<Longrightarrow> h t k j \<in> set [h t k j. t \<leftarrow> ts, k \<leftarrow> ks, j \<leftarrow> js]"
  by simp blast

lemma in_set_comp4:
  "t \<in> set ts \<Longrightarrow> k \<in> set ks \<Longrightarrow> j \<in> set js \<Longrightarrow> i \<in> set is \<Longrightarrow>
   h t k j i \<in> set [h t k j i. t \<leftarrow> ts, k \<leftarrow> ks, j \<leftarrow> js, i \<leftarrow> is]"
  by simp blast

lemma in_set_comp4_if:
  "t \<in> set ts \<Longrightarrow> k \<in> set ks \<Longrightarrow> j \<in> set js \<Longrightarrow> i \<in> set is \<Longrightarrow> R j i \<Longrightarrow>
   h t k j i \<in> set [h t k j i. t \<leftarrow> ts, k \<leftarrow> ks, j \<leftarrow> js, i \<leftarrow> is, R j i]"
  by simp blast

lemma constraint_7_member:
  assumes "1 \<le> t" "t \<le> T" "1 \<le> k" "k \<le> K" "1 \<le> j" "j \<le> V - 1"
  shows "constraint_7 V j k t \<in> set (constraints_7 V K T)"
  unfolding constraints_7_def
  by (rule in_set_comp3 [where h = "\<lambda>t k j. constraint_7 V j k t"]) (use assms in simp_all)

lemma constraint_10_member:
  assumes "1 \<le> t" "t \<le> T" "1 \<le> k" "k \<le> K" "0 \<le> i" "i \<le> V - 1" "0 \<le> j" "j \<le> V - 1" "i \<noteq> j"
  shows "constraint_10 c i j k t \<in> set (constraints_10 V K T c)"
  unfolding constraints_10_def
  by (rule in_set_comp4_if [where h = "\<lambda>t k i j. constraint_10 c i j k t" and R = "\<lambda>i j. i \<noteq> j"])
     (use assms in simp_all)

lemma F_diagonal_member:
  assumes "1 \<le> t" "t \<le> T" "1 \<le> k" "k \<le> K" "0 \<le> i" "i \<le> V - 1"
  shows "lp_eq (aff_var (F i i k t)) (aff_num 0) \<in> set (F_diagonal V K T)"
proof -
  have "(\<lambda>t k j i. lp_eq (aff_var (F i j k t)) (aff_num 0)) t k i i \<in> set (F_diagonal V K T)"
    unfolding F_diagonal_def
    by (rule in_set_comp4_if [where R = "\<lambda>j i. i = j"]) (use assms in simp_all)
  then show ?thesis .
qed

lemma F_vars_member:
  assumes "1 \<le> t" "t \<le> T" "1 \<le> k" "k \<le> K" "0 \<le> i" "i \<le> V - 1" "0 \<le> j" "j \<le> V - 1"
  shows "\<lparr>name = F i j k t, lowBound = Some 0, upBound = None, cat = LpContinuous\<rparr>
    \<in> set (F_vars V K T)"
proof -
  have "(\<lambda>i j k t. (i, j, k, t)) i j k t
      \<in> set [(i, j, k, t). i \<leftarrow> range_i V, j \<leftarrow> range_j V, k \<leftarrow> range_k K, t \<leftarrow> range_t T]"
    by (rule in_set_comp4) (use assms in simp_all)
  then have "(\<lambda>key. \<lparr>name = (case key of (i, j, k, t) \<Rightarrow> F i j k t), lowBound = Some 0,
        upBound = None, cat = LpContinuous\<rparr>) (i, j, k, t) \<in> set (F_vars V K T)"
    unfolding F_vars_def LpVariable_dicts_def by (simp only: set_map LpCategory.simps if_False) (rule imageI)
  then show ?thesis by simp
qed

lemma X_vars_member:
  assumes "1 \<le> t" "t \<le> T" "1 \<le> k" "k \<le> K" "0 \<le> i" "i \<le> V - 1" "0 \<le> j" "j \<le> V - 1"
  shows "\<lparr>name = X i j k t, lowBound = Some 0, upBound = Some 1, cat = LpInteger\<rparr>
    \<in> set (X_vars V K T)"
proof -
  have "(\<lambda>i j k t. (i, j, k, t)) i j k t
      \<in> set [(i, j, k, t). i \<leftarrow> range_i V, j \<leftarrow> range_j V, k \<leftarrow> range_k K, t \<leftarrow> range_t T]"
    by (rule in_set_comp4) (use assms in simp_all)
  then have "(\<lambda>key. \<lparr>name = (case key of (i, j, k, t) \<Rightarrow> X i j k t), lowBound = Some 0,
        upBound = Some 1, cat = LpInteger\<rparr>) (i, j, k, t) \<in> set (X_vars V K T)"
    unfolding X_vars_def LpVariable_dicts_def by (simp only: set_map if_True refl) (rule imageI)
  then show ?thesis by simp
qed

lemma degree_sums_swap:
  fixes x :: "int \<Rightarrow> int \<Rightarrow> real"
  assumes "finite A"
  shows "(\<Sum>j \<in> A. \<Sum>i \<in> A - {j}. x i j) = (\<Sum>j \<in> A. \<Sum>i \<in> A - {j}. x j i)"
proof -
  have in_if: "(\<Sum>i \<in> A - {j}. x i j) = (\<Sum>i \<in> A. if i \<noteq> j then x i j else 0)" for j
    by (rule sum.mono_neutral_cong_left) (use assms in auto)
  have out_if: "(\<Sum>i \<in> A - {j}. x j i) = (\<Sum>i \<in> A. if j \<noteq> i then x j i else 0)" for j
    by (rule sum.mono_neutral_cong_left) (use assms in auto)
  have "(\<Sum>j \<in> A. \<Sum>i \<in> A. if i \<noteq> j then x i j else 0)
      = (\<Sum>i \<in> A. \<Sum>j \<in> A. if i \<noteq> j then x i j else 0)"
    by (rule sum.swap)
  then show ?thesis by (simp only: in_if out_if)
qed

lemma depot_balance:
  fixes x :: "int \<Rightarrow> int \<Rightarrow> real"
  assumes "\<forall>j \<in> {1..n}. (\<Sum>i \<in> {0..n} - {j}. x i j) = (\<Sum>i \<in> {0..n} - {j}. x j i)"
    and "0 \<le> n"
  shows "(\<Sum>i \<in> {0..n} - {0}. x i 0) = (\<Sum>i \<in> {0..n} - {0}. x 0 i)"
proof -
  let ?in = "\<lambda>j. \<Sum>i \<in> {0..n} - {j}. x i j" and ?out = "\<lambda>j. \<Sum>i \<in> {0..n} - {j}. x j i"
  have split: "{0..n} = insert 0 {1..n}" using assms(2) by auto
  have "sum ?in {0..n} = sum ?out {0..n}" by (rule degree_sums_swap) simp
  then have "?in 0 + sum ?in {1..n} = ?out 0 + sum ?out {1..n}"
    by (subst (asm) (1 3) split) simp
  moreover have "sum ?in {1..n} = sum ?out {1..n}"
    by (rule sum.cong [OF refl]) (use assms(1) in blast)
  ultimately show ?thesis by simp
qed

section \<open>The zero assignment\<close>

lemma satisfies_constraint_8:
  "satisfies \<sigma> (constraint_8 V i k t) \<longleftrightarrow> (\<Sum>j \<in> {0..V - 1} - {i}. \<sigma> (X i j k t)) \<le> 1"
proof -
  have 1: "map (lp_value \<sigma>) (map (\<lambda>j. if i \<noteq> j then aff_var (X i j k t) else aff_num 0) (range_j V))
      = map (\<lambda>j. if j \<noteq> i then \<sigma> (X i j k t) else 0) (py_range 0 V)"
    by (simp add: range_j_def)
  show ?thesis
    unfolding constraint_8_def satisfies_lp_le lp_value_lpSum 1 sum_list_if_neq lp_value_aff_num ..
qed

lemma satisfies_constraint_9:
  "satisfies \<sigma> (constraint_9 V i k t)
     \<longleftrightarrow> (\<Sum>j \<in> {0..V - 1} - {i}. \<sigma> (F i j k t))
        = (\<Sum>j \<in> {0..V - 1} - {i}. \<sigma> (F j i k t)) - \<sigma> (Q i k t)"
proof -
  have 1: "map (lp_value \<sigma>) (map (\<lambda>j. if i \<noteq> j then aff_var (F i j k t) else aff_num 0) (range_j V))
      = map (\<lambda>j. if j \<noteq> i then \<sigma> (F i j k t) else 0) (py_range 0 V)"
    by (simp add: range_j_def)
  have 2: "map (lp_value \<sigma>) (map (\<lambda>j. if i \<noteq> j then aff_var (F j i k t) else aff_num 0) (range_j V))
      = map (\<lambda>j. if j \<noteq> i then \<sigma> (F j i k t) else 0) (py_range 0 V)"
    by (simp add: range_j_def)
  show ?thesis
    unfolding constraint_9_def satisfies_lp_eq lp_value_lpSum lp_value_aff_sub 1 2 sum_list_if_neq
      lp_value_aff_var ..
qed

lemma zero_satisfies_pure_blocks:
  "\<forall>c \<in> set (X_diagonal V K T). satisfies zero_assignment c"
  "\<forall>c \<in> set (F_diagonal V K T). satisfies zero_assignment c"
  "\<forall>c \<in> set (constraints_3 V T). satisfies zero_assignment c"
  "\<forall>c \<in> set (constraints_7 V K T). satisfies zero_assignment c"
  "\<forall>c \<in> set (constraints_8 V K T). satisfies zero_assignment c"
  "\<forall>c \<in> set (constraints_9 V K T). satisfies zero_assignment c"
  "\<forall>c \<in> set (constraints_10 V K T c'). satisfies zero_assignment c"
  by (auto simp: X_diagonal_def F_diagonal_def constraints_3_def constraints_7_def
      constraints_8_def constraints_9_def constraints_10_def satisfies_constraint_7
      satisfies_constraint_8 satisfies_constraint_9 satisfies_constraint_10 zero_assignment_def)

lemma zero_within_domains:
  "\<forall>d \<in> set (X_vars V K T). within_domain zero_assignment d"
  "\<forall>d \<in> set (F_vars V K T). within_domain zero_assignment d"
  "\<forall>d \<in> set (I_vars V T). within_domain zero_assignment d"
  "\<forall>d \<in> set (Ip_vars V T). within_domain zero_assignment d"
  "\<forall>d \<in> set (W_vars V T). within_domain zero_assignment d"
  "\<forall>d \<in> set (Q_vars V K T). within_domain zero_assignment d"
  by (auto simp: X_vars_def F_vars_def I_vars_def Ip_vars_def W_vars_def Q_vars_def
      LpVariable_dicts_def within_domain_def zero_assignment_def)

lemma zero_satisfies_constraints_2:
  assumes "constraints_2 V K T d_mu = Inr c2"
    and "\<forall>i \<in> {1..V - 1}. \<forall>s \<in> {1..T}. at2 d_mu i s = 0"
  shows "\<forall>c \<in> set c2. satisfies zero_assignment c"
proof
  fix c assume "c \<in> set c2"
  from mapE_member_rev [OF assms(1) [unfolded constraints_2_def] this]
  obtain t i where ti: "1 \<le> t" "t \<le> T" "1 \<le> i" "i \<le> V - 1"
    and c: "constraint_2 K d_mu i t = Inr c" by auto
  have i0: "0 \<le> i" using ti by simp
  have "(\<Sum>s = 1..t - 1. at2 d_mu i s + zero_assignment (W i s)) = 0"
    by (rule sum.neutral) (use assms(2) ti in \<open>auto simp: zero_assignment_def\<close>)
  then have "lp_value zero_assignment (expr c) = 0"
    by (simp add: constraint_2_value(2) [OF c i0] zero_assignment_def)
  then show "satisfies zero_assignment c"
    by (simp add: satisfies_def constraint_2_value(1) [OF c i0])
qed

lemma zero_satisfies_constraints_45:
  assumes "constraints_45 V T m d_mu = Inr c45"
    and "\<forall>i \<in> {1..V - 1}. \<forall>s \<in> {1..T}. at2 d_mu i s = 0"
  shows "\<forall>c \<in> set c45. satisfies zero_assignment c"
proof
  fix c assume "c \<in> set c45"
  from mapE_member_rev [OF assms(1) [unfolded constraints_45_def] this]
  obtain t i where ti: "1 \<le> t" "t \<le> T" "1 \<le> i" "i \<le> V - 1"
    and c: "constraint_45 V T m d_mu i t = Inr c" by auto
  have i0: "0 \<le> i" using ti by simp
  show "satisfies zero_assignment c"
  proof (cases "m \<le> t")
    case False
    then show ?thesis using c by (auto simp: constraint_45_def zero_assignment_def)
  next
    case True
    from c True obtain inv where "I_at V T i (t - m + 1) = Inr inv"
      by (auto simp: constraint_45_def bindE_eq_Inr)
    then have m1: "m \<le> t" "1 \<le> t - m + 1" using True by (auto dest: I_at_Inr_D)
    have "(\<Sum>a = t - m + 2..t. at2 d_mu i a) = 0"
      by (rule sum.neutral) (use assms(2) ti m1 in auto)
    then have "lp_value zero_assignment (expr c) = 0"
      by (simp add: constraint_45_value(2) [OF c True i0 ti(1)] zero_assignment_def)
    then show ?thesis
      by (simp add: satisfies_def constraint_45_value(1) [OF c True i0 ti(1)])
  qed
qed

lemma zero_satisfies_constraints_21:
  assumes "right_of_const_21 V T d_mu C Za = Inr right_21"
    and "constraints_21 V K T right_21 = Inr c21"
    and "\<forall>i \<in> {1..V - 1}. \<forall>s \<in> {1..T}. at2 d_mu i s = 0"
  shows "\<forall>c \<in> set c21. satisfies zero_assignment c"
proof
  fix c assume "c \<in> set c21"
  from mapE_member_rev [OF assms(2) [unfolded constraints_21_def] this]
  obtain t i where ti: "1 \<le> t" "t \<le> T" "1 \<le> i" "i \<le> V - 1"
    and c: "constraint_21 K right_21 i t = Inr c" by auto
  from constraint_21_value [OF c] obtain bound where
    b: "nd_getitem right_21 i t = Inr bound" and s: "sense c = LpConstraintGE"
    and v: "lp_value zero_assignment (expr c)
        = (\<Sum>s = 1..t. \<Sum>k = 1..K. zero_assignment (Q i k s))
          - (\<Sum>s = 1..t - 1. zero_assignment (W i s)) - bound"
    by blast
  have d: "(\<Sum>s = 1..t. at2 d_mu i s) = 0"
    by (rule sum.neutral) (use assms(3) ti in auto)
  have q: "(\<Sum>s = 1..t. (at2 d_mu i s)\<^sup>2) = 0"
    by (rule sum.neutral) (use assms(3) ti in auto)
  from right_of_const_21_getitem [OF assms(1) ti(3,4,1,2)] b have "bound = 0"
    by (simp add: d q)
  then show "satisfies zero_assignment c"
    by (simp add: satisfies_def s v zero_assignment_def)
qed

lemma zero_feasible:
  assumes "build norm_ppf P = Inr nb"
    and "\<forall>i \<in> {1..par_V P - 1}. \<forall>s \<in> {1..par_T P}. at2 (par_d_mu P) i s = 0"
  shows "feasible zero_assignment (nb_problem nb)"
proof -
  from assms(1) obtain right_21 c2 c45 c21 where
    r: "right_of_const_21 (par_V P) (par_T P) (par_d_mu P) (par_C P)
       (stats_norm_ppf_at norm_ppf (par_alpha P)) = Inr right_21"
    and c2: "constraints_2 (par_V P) (par_K P) (par_T P) (par_d_mu P) = Inr c2"
    and c45: "constraints_45 (par_V P) (par_T P) (par_m P) (par_d_mu P) = Inr c45"
    and c21: "constraints_21 (par_V P) (par_K P) (par_T P) right_21 = Inr c21"
    and cs: "constraints (nb_problem nb)
       = X_diagonal (par_V P) (par_K P) (par_T P) @ F_diagonal (par_V P) (par_K P) (par_T P)
         @ c2 @ constraints_3 (par_V P) (par_T P) @ c45
         @ constraints_7 (par_V P) (par_K P) (par_T P)
         @ constraints_8 (par_V P) (par_K P) (par_T P)
         @ constraints_9 (par_V P) (par_K P) (par_T P)
         @ constraints_10 (par_V P) (par_K P) (par_T P) (par_c P) @ c21"
    and vs: "variables (nb_problem nb)
       = X_vars (par_V P) (par_K P) (par_T P) @ F_vars (par_V P) (par_K P) (par_T P)
         @ I_vars (par_V P) (par_T P) @ Ip_vars (par_V P) (par_T P)
         @ W_vars (par_V P) (par_T P) @ Q_vars (par_V P) (par_K P) (par_T P)"
    by (rule build_InrE)
  have "list_all (within_domain zero_assignment) (variables (nb_problem nb))"
    by (simp add: vs list_all_iff ball_Un zero_within_domains)
  moreover have "list_all (satisfies zero_assignment) (constraints (nb_problem nb))"
    by (simp add: cs list_all_iff ball_Un zero_satisfies_pure_blocks
        zero_satisfies_constraints_2 [OF c2 assms(2)]
        zero_satisfies_constraints_45 [OF c45 assms(2)]
        zero_satisfies_constraints_21 [OF r c21 assms(2)])
  ultimately show ?thesis by (simp add: feasible_def)
qed

lemma tiny_no_demand:
  "\<forall>i \<in> {1..par_V tiny - 1}. \<forall>s \<in> {1..par_T tiny}. at2 (par_d_mu tiny) i s = 0"
proof -
  have "{1..2::int} = {1, 2}" by auto
  then show ?thesis by (simp add: tiny_def at2_def)
qed

lemma tiny_zero_feasible: "feasible_for norm_ppf tiny zero_assignment"
proof -
  obtain nb where nb: "build norm_ppf tiny = Inr nb" using tiny_builds by blast
  from zero_feasible [OF nb tiny_no_demand] nb show ?thesis by (simp add: feasible_for_def)
qed

section \<open>The report\<close>

lemma negative_capacity_builds:
  "\<exists>nb. build norm_ppf (tiny\<lparr>par_c := - 1\<rparr>) = Inr nb"
  by (rule build_succeeds) (simp_all add: tiny_def table_shape_def)

lemma pulp_value_foldl:
  assumes "\<forall>v. varValue v = Some (\<sigma> v)"
  shows "foldl (\<lambda>acc (v, x).
        case acc of None \<Rightarrow> None
        | Some s \<Rightarrow> (case varValue v of None \<Rightarrow> None | Some y \<Rightarrow> Some (s + y * x)))
       (Some s0) ts = Some (s0 + (\<Sum>(v, x) \<leftarrow> ts. \<sigma> v * x))"
  using assms by (induction ts arbitrary: s0) (auto simp: algebra_simps)

lemma pulp_value_total:
  "\<forall>v. varValue v = Some (\<sigma> v) \<Longrightarrow> pulp_value varValue e = Some (lp_value \<sigma> e)"
  by (simp add: pulp_value_def lp_value_def pulp_value_foldl)

section \<open>What the build does and does not depend on\<close>

lemma mapE_success_transfer:
  assumes "mapE g xs = Inr ys"
    and "\<And>x y. x \<in> set xs \<Longrightarrow> g x = Inr y \<Longrightarrow> \<exists>y'. g' x = Inr y'"
  shows "\<exists>ys'. mapE g' xs = Inr ys'"
proof (rule mapE_succeeds)
  fix x assume x: "x \<in> set xs"
  from mapE_member [OF assms(1) x] obtain y where "g x = Inr y" by blast
  with x show "\<exists>y'. g' x = Inr y'" by (rule assms(2))
qed

lemma waste_cost_any_p:
  assumes "waste_cost V T m p = Inr e"
  shows "\<exists>e'. waste_cost V T m p' = Inr e'"
proof -
  from assms obtain es where
    "mapE (\<lambda>(i, t). bindE (W_at V T i t) (\<lambda>w. Inr (aff_scale p (aff_var w))))
       [(i, t). i \<leftarrow> range_i' V, t \<leftarrow> py_range m (T + 1)] = Inr es"
    by (auto simp: waste_cost_def bindE_eq_Inr)
  then have "\<exists>es'. mapE (\<lambda>(i, t). bindE (W_at V T i t) (\<lambda>w. Inr (aff_scale p' (aff_var w))))
       [(i, t). i \<leftarrow> range_i' V, t \<leftarrow> py_range m (T + 1)] = Inr es'"
    by (rule mapE_success_transfer) (auto simp: bindE_eq_Inr)
  then show ?thesis by (auto simp: waste_cost_def)
qed

lemma fuel_cost_any_l:
  assumes "fuel_cost V K T a lambda' y gamma beta s' mu f l = Inr e"
  shows "\<exists>e'. fuel_cost V K T a lambda' y gamma beta s' mu f l' = Inr e'"
proof -
  from assms obtain es where
    "mapE (\<lambda>(t, k, j, i). fuel_term a lambda' y gamma beta s' mu f l i j k t)
       [(t, k, j, i). t \<leftarrow> range_t T, k \<leftarrow> range_k K, j \<leftarrow> range_j V, i \<leftarrow> range_i V] = Inr es"
    by (auto simp: fuel_cost_def bindE_eq_Inr)
  then have "\<exists>es'. mapE (\<lambda>(t, k, j, i). fuel_term a lambda' y gamma beta s' mu f l' i j k t)
       [(t, k, j, i). t \<leftarrow> range_t T, k \<leftarrow> range_k K, j \<leftarrow> range_j V, i \<leftarrow> range_i V] = Inr es'"
    by (rule mapE_success_transfer) (auto simp: fuel_term_def bindE_eq_Inr split: if_splits)
  then show ?thesis by (auto simp: fuel_cost_def)
qed

lemma driver_cost_any_r:
  assumes "driver_cost V K T a f r = Inr e"
  shows "\<exists>e'. driver_cost V K T a f r' = Inr e'"
proof -
  from assms obtain es where
    "mapE (\<lambda>(t, k, j, i). driver_term a f r i j k t)
       [(t, k, j, i). t \<leftarrow> range_t T, k \<leftarrow> range_k K, j \<leftarrow> range_j V, i \<leftarrow> range_i V] = Inr es"
    by (auto simp: driver_cost_def bindE_eq_Inr)
  then have "\<exists>es'. mapE (\<lambda>(t, k, j, i). driver_term a f r' i j k t)
       [(t, k, j, i). t \<leftarrow> range_t T, k \<leftarrow> range_k K, j \<leftarrow> range_j V, i \<leftarrow> range_i V] = Inr es'"
    by (rule mapE_success_transfer) (auto simp: driver_term_def bindE_eq_Inr split: if_splits)
  then show ?thesis by (auto simp: driver_cost_def)
qed

lemma build_any_costs:
  assumes "build norm_ppf P = Inr nb"
  shows "\<exists>nb'. build norm_ppf (P\<lparr>par_l := l, par_r := r, par_h := h, par_p := p\<rparr>) = Inr nb'
      \<and> constraints (nb_problem nb') = constraints (nb_problem nb)
      \<and> variables (nb_problem nb') = variables (nb_problem nb)"
proof -
  from assms obtain lambda' gamma right_21 waste fuel driver c2 c45 c21 where
    1: "lambda_coef (par_xi P) (par_kappa P) (par_psi P) = Inr lambda'"
    and 2: "gamma_coef (par_epsilon P) (par_varpi P) = Inr gamma"
    and 3: "right_of_const_21 (par_V P) (par_T P) (par_d_mu P) (par_C P)
       (stats_norm_ppf_at norm_ppf (par_alpha P)) = Inr right_21"
    and 4: "waste_cost (par_V P) (par_T P) (par_m P) (par_p P) = Inr waste"
    and 5: "fuel_cost (par_V P) (par_K P) (par_T P) (par_a P) lambda'
       (y_coef (par_k_e P) (par_N_e P) (par_V_e P)) gamma
       (beta_coef (par_C_d P) (par_A_e P) (par_rho P))
       (s_coef (par_g P) (par_phi P) (par_C_r P)) (par_mu P) (par_f P) (par_l P) = Inr fuel"
    and 6: "driver_cost (par_V P) (par_K P) (par_T P) (par_a P) (par_f P) (par_r P) = Inr driver"
    and 7: "constraints_2 (par_V P) (par_K P) (par_T P) (par_d_mu P) = Inr c2"
    and 8: "constraints_45 (par_V P) (par_T P) (par_m P) (par_d_mu P) = Inr c45"
    and 9: "constraints_21 (par_V P) (par_K P) (par_T P) right_21 = Inr c21"
    and cs: "constraints (nb_problem nb)
       = X_diagonal (par_V P) (par_K P) (par_T P) @ F_diagonal (par_V P) (par_K P) (par_T P)
         @ c2 @ constraints_3 (par_V P) (par_T P) @ c45
         @ constraints_7 (par_V P) (par_K P) (par_T P)
         @ constraints_8 (par_V P) (par_K P) (par_T P)
         @ constraints_9 (par_V P) (par_K P) (par_T P)
         @ constraints_10 (par_V P) (par_K P) (par_T P) (par_c P) @ c21"
    and vs: "variables (nb_problem nb)
       = X_vars (par_V P) (par_K P) (par_T P) @ F_vars (par_V P) (par_K P) (par_T P)
         @ I_vars (par_V P) (par_T P) @ Ip_vars (par_V P) (par_T P)
         @ W_vars (par_V P) (par_T P) @ Q_vars (par_V P) (par_K P) (par_T P)"
    by (rule build_InrE)
  from waste_cost_any_p [OF 4] obtain waste' where
    w4: "waste_cost (par_V P) (par_T P) (par_m P) p = Inr waste'" by blast
  from fuel_cost_any_l [OF 5] obtain fuel' where
    f5: "fuel_cost (par_V P) (par_K P) (par_T P) (par_a P) lambda'
       (y_coef (par_k_e P) (par_N_e P) (par_V_e P)) gamma
       (beta_coef (par_C_d P) (par_A_e P) (par_rho P))
       (s_coef (par_g P) (par_phi P) (par_C_r P)) (par_mu P) (par_f P) l = Inr fuel'" by blast
  from driver_cost_any_r [OF 6] obtain driver' where
    d6: "driver_cost (par_V P) (par_K P) (par_T P) (par_a P) (par_f P) r = Inr driver'" by blast
  show ?thesis
    by (simp add: build_def 1 2 3 w4 f5 d6 7 8 9 cs vs)
qed

lemma for_E_body_ran:
  assumes "for_E xs body s = Inr s'" and "x \<in> set xs"
  shows "\<exists>s1 s2. body x s1 = Inr s2"
  using assms
proof (induction xs arbitrary: s)
  case Nil
  then show ?case by simp
next
  case (Cons y ys)
  from Cons.prems(1) obtain s2 where b: "body y s = Inr s2" and r: "for_E ys body s2 = Inr s'"
    by (auto simp: bindE_eq_Inr)
  show ?case
  proof (cases "x = y")
    case True
    with b show ?thesis by blast
  next
    case False
    with Cons.prems(2) have "x \<in> set ys" by simp
    from Cons.IH [OF r this] show ?thesis .
  qed
qed

lemma getitem_Inr_bound:
  "getitem xs i = Inr v \<Longrightarrow> 1 \<le> i \<Longrightarrow> i < int (length xs) \<and> v = xs ! nat i"
  by (rule getitem_Inr_D) simp_all

lemma entry_21_needs_row:
  assumes "entry_21 d_mu C Za i t = Inr v" and "1 \<le> i" and "1 \<le> t"
  shows "i < int (length d_mu) \<and> t < int (length (d_mu ! nat i))"
proof -
  from assms(1) obtain ds where
    ds: "mapE (\<lambda>s. getitem2 d_mu i s) (py_range 1 (t + 1)) = Inr ds"
    by (auto simp: entry_21_def bindE_eq_Inr)
  have "t \<in> set (py_range 1 (t + 1))" using assms(3) by simp
  from mapE_member [OF ds this] obtain x where "getitem2 d_mu i t = Inr x" by blast
  then obtain row where row: "getitem d_mu i = Inr row" and x: "getitem row t = Inr x"
    by (auto simp: getitem2_def bindE_eq_Inr)
  from getitem_Inr_bound [OF row assms(2)] have "i < int (length d_mu)" "row = d_mu ! nat i"
    by simp_all
  moreover from getitem_Inr_bound [OF x assms(3)] have "t < int (length row)" by simp
  ultimately show ?thesis by simp
qed

lemma right_of_const_21_needs_rows:
  assumes "right_of_const_21 V T d_mu C Za = Inr A"
    and "1 \<le> i" and "i \<le> V - 1" and "1 \<le> T"
  shows "i < int (length d_mu) \<and> T < int (length (d_mu ! nat i))"
proof -
  from right_of_const_21_cells [OF assms(1)] assms(2-)
  have "entry_21 d_mu C Za i T = Inr (cell A i T)" by simp
  from entry_21_needs_row [OF this assms(2,4)] show ?thesis .
qed

section \<open>The claims\<close>

subsection \<open>C1\<close>

text \<open>
  Claim C1. Once the model is built, for every customer \<open>i\<close> from 1 to \<open>V - 1\<close> and every
  period \<open>t\<close> from 1 to \<open>T\<close>, the cell \<^verbatim>\<open>right_of_const_21[i][t]\<close> holds the cumulative
  mean demand plus the safety margin \<open>Za * C * sqrt (\<Sum>s = 1..t. d_mu[i][s]\<^sup>2)\<close>, where
  \<open>Za\<close> is the quantile at the service level; and the problem contains, for \<open>(i, t)\<close>,
  the constraint
  \<open>(\<Sum>s = 1..t. \<Sum>k = 1..K. Q[i][k][s]) - (\<Sum>s = 1..t - 1. W[i][s]) \<ge> right_of_const_21[i][t]\<close>,
  kept as that difference compared with zero.
\<close>

theorem service_level_constraint:
  assumes "build norm_ppf P = Inr nb"
    and "1 \<le> i" and "i \<le> par_V P - 1" and "1 \<le> t" and "t \<le> par_T P"
  shows "\<exists>right_21 bound c.
      right_of_const_21 (par_V P) (par_T P) (par_d_mu P) (par_C P)
        (stats_norm_ppf_at norm_ppf (par_alpha P)) = Inr right_21
    \<and> nd_getitem right_21 i t = Inr bound
    \<and> bound = (\<Sum>s = 1..t. at2 (par_d_mu P) i s)
               + stats_norm_ppf_at norm_ppf (par_alpha P) * par_C P
                 * sqrt (\<Sum>s = 1..t. (at2 (par_d_mu P) i s)\<^sup>2)
    \<and> c \<in> set (constraints (nb_problem nb))
    \<and> constraint_21 (par_K P) right_21 i t = Inr c
    \<and> sense c = LpConstraintGE
    \<and> (\<forall>\<sigma>. lp_value \<sigma> (expr c)
          = (\<Sum>s = 1..t. \<Sum>k = 1..par_K P. \<sigma> (Q i k s)) - (\<Sum>s = 1..t - 1. \<sigma> (W i s))
            - bound)
    \<and> (\<forall>\<sigma>. satisfies \<sigma> c \<longleftrightarrow>
          bound \<le> (\<Sum>s = 1..t. \<Sum>k = 1..par_K P. \<sigma> (Q i k s)) - (\<Sum>s = 1..t - 1. \<sigma> (W i s)))"
proof -
  from assms(1) obtain right_21 c2 c45 c21 where
    r: "right_of_const_21 (par_V P) (par_T P) (par_d_mu P) (par_C P)
       (stats_norm_ppf_at norm_ppf (par_alpha P)) = Inr right_21"
    and c21: "constraints_21 (par_V P) (par_K P) (par_T P) right_21 = Inr c21"
    and cs: "constraints (nb_problem nb)
       = X_diagonal (par_V P) (par_K P) (par_T P) @ F_diagonal (par_V P) (par_K P) (par_T P)
         @ c2 @ constraints_3 (par_V P) (par_T P) @ c45
         @ constraints_7 (par_V P) (par_K P) (par_T P)
         @ constraints_8 (par_V P) (par_K P) (par_T P)
         @ constraints_9 (par_V P) (par_K P) (par_T P)
         @ constraints_10 (par_V P) (par_K P) (par_T P) (par_c P) @ c21"
    by (rule build_InrE)
  from constraints_21_member [OF c21 assms(2-)] obtain c where
    c: "c \<in> set c21" "constraint_21 (par_K P) right_21 i t = Inr c" by blast
  define bound where "bound = (\<Sum>s = 1..t. at2 (par_d_mu P) i s)
               + stats_norm_ppf_at norm_ppf (par_alpha P) * par_C P
                 * sqrt (\<Sum>s = 1..t. (at2 (par_d_mu P) i s)\<^sup>2)"
  have g: "nd_getitem right_21 i t = Inr bound"
    using right_of_const_21_getitem [OF r assms(2-)]
    by (simp add: bound_def mult.commute mult.left_commute)
  from constraint_21_value [OF c(2)] g
  have s: "sense c = LpConstraintGE"
    and v: "\<forall>\<sigma>. lp_value \<sigma> (expr c)
          = (\<Sum>s = 1..t. \<Sum>k = 1..par_K P. \<sigma> (Q i k s)) - (\<Sum>s = 1..t - 1. \<sigma> (W i s))
            - bound"
    by auto
  have sat: "\<forall>\<sigma>. satisfies \<sigma> c \<longleftrightarrow>
          bound \<le> (\<Sum>s = 1..t. \<Sum>k = 1..par_K P. \<sigma> (Q i k s)) - (\<Sum>s = 1..t - 1. \<sigma> (W i s))"
    using s v by (simp add: satisfies_def)
  have "c \<in> set (constraints (nb_problem nb))" using c(1) by (simp add: cs)
  with r g c(2) s v sat bound_def show ?thesis by blast
qed

theorem service_level_constraint_witness:
  "\<exists>nb. build norm_ppf_sample tiny = Inr nb
     \<and> (\<exists>right_21 c.
          right_of_const_21 (par_V tiny) (par_T tiny) (par_d_mu tiny) (par_C tiny)
            (stats_norm_ppf_at norm_ppf_sample (par_alpha tiny)) = Inr right_21
        \<and> c \<in> set (constraints (nb_problem nb))
        \<and> constraint_21 (par_K tiny) right_21 1 2 = Inr c
        \<and> sense c = LpConstraintGE)"
proof -
  obtain nb where nb: "build norm_ppf_sample tiny = Inr nb" using tiny_builds by blast
  have h: "(1::int) \<le> 1" "1 \<le> par_V tiny - 1" "(1::int) \<le> 2" "2 \<le> par_T tiny"
    by (simp_all add: tiny_def)
  from service_level_constraint [OF nb h] nb show ?thesis by blast
qed

subsection \<open>C2\<close>

text \<open>
  Claim C2. Once the model is built, the block of constraints (4) and (5) consists of
  exactly one constraint for each period \<open>t\<close> and customer \<open>i\<close>, in loop order. For
  \<open>t < m\<close> it is the equality \<open>W[i][t] = 0\<close>; for \<open>t \<ge> m\<close> it is the lower bound
  \<open>W[i][t] \<ge> I[i][t-m+1] - (\<Sum>a = t-m+2..t. d_mu[i][a]) - (\<Sum>a = t-m+2..t-1. W[i][a])\<close>.
  Each is kept as left-hand side minus right-hand side, compared with zero.
\<close>

theorem waste_constraints:
  assumes "build norm_ppf P = Inr nb"
    and "1 \<le> i" and "i \<le> par_V P - 1" and "1 \<le> t" and "t \<le> par_T P"
  shows "\<exists>c \<in> set (constraints (nb_problem nb)).
      constraint_45 (par_V P) (par_T P) (par_m P) (par_d_mu P) i t = Inr c
    \<and> (t < par_m P \<longrightarrow>
          sense c = LpConstraintEQ
        \<and> (\<forall>\<sigma>. lp_value \<sigma> (expr c) = \<sigma> (W i t) - 0)
        \<and> (\<forall>\<sigma>. satisfies \<sigma> c \<longleftrightarrow> \<sigma> (W i t) = 0))
    \<and> (par_m P \<le> t \<longrightarrow>
          sense c = LpConstraintGE
        \<and> (\<forall>\<sigma>. lp_value \<sigma> (expr c)
              = \<sigma> (W i t)
                - (\<sigma> (I i (t - par_m P + 1))
                   - (\<Sum>a = t - par_m P + 2..t. at2 (par_d_mu P) i a)
                   - (\<Sum>a = t - par_m P + 2..t - 1. \<sigma> (W i a))))
        \<and> (\<forall>\<sigma>. satisfies \<sigma> c \<longleftrightarrow>
              \<sigma> (I i (t - par_m P + 1))
                - (\<Sum>a = t - par_m P + 2..t. at2 (par_d_mu P) i a)
                - (\<Sum>a = t - par_m P + 2..t - 1. \<sigma> (W i a))
              \<le> \<sigma> (W i t)))
    \<and> (\<exists>c45. constraints_45 (par_V P) (par_T P) (par_m P) (par_d_mu P) = Inr c45
          \<and> map Inr c45
              = map (\<lambda>(t, i). constraint_45 (par_V P) (par_T P) (par_m P) (par_d_mu P) i t)
                  [(t, i). t \<leftarrow> range_t (par_T P), i \<leftarrow> range_i' (par_V P)])"
proof -
  from assms(1) obtain c2 c45 c21 where
    c45: "constraints_45 (par_V P) (par_T P) (par_m P) (par_d_mu P) = Inr c45"
    and cs: "constraints (nb_problem nb)
       = X_diagonal (par_V P) (par_K P) (par_T P) @ F_diagonal (par_V P) (par_K P) (par_T P)
         @ c2 @ constraints_3 (par_V P) (par_T P) @ c45
         @ constraints_7 (par_V P) (par_K P) (par_T P)
         @ constraints_8 (par_V P) (par_K P) (par_T P)
         @ constraints_9 (par_V P) (par_K P) (par_T P)
         @ constraints_10 (par_V P) (par_K P) (par_T P) (par_c P) @ c21"
    by (rule build_InrE)
  from constraints_45_member [OF c45 assms(2-)] obtain c where
    c: "c \<in> set c45" "constraint_45 (par_V P) (par_T P) (par_m P) (par_d_mu P) i t = Inr c"
    by blast
  have i0: "0 \<le> i" using assms(2) by simp
  have before: "sense c = LpConstraintEQ
        \<and> (\<forall>\<sigma>. lp_value \<sigma> (expr c) = \<sigma> (W i t) - 0)
        \<and> (\<forall>\<sigma>. satisfies \<sigma> c \<longleftrightarrow> \<sigma> (W i t) = 0)"
    if "t < par_m P"
  proof -
    have "c = lp_eq (aff_var (W i t)) (aff_num 0)"
      using c(2) constraint_45_before [OF that, of "par_V P" "par_T P" "par_d_mu P" i] by simp
    then show ?thesis by simp
  qed
  have after: "sense c = LpConstraintGE
        \<and> (\<forall>\<sigma>. lp_value \<sigma> (expr c)
              = \<sigma> (W i t)
                - (\<sigma> (I i (t - par_m P + 1))
                   - (\<Sum>a = t - par_m P + 2..t. at2 (par_d_mu P) i a)
                   - (\<Sum>a = t - par_m P + 2..t - 1. \<sigma> (W i a))))
        \<and> (\<forall>\<sigma>. satisfies \<sigma> c \<longleftrightarrow>
              \<sigma> (I i (t - par_m P + 1))
                - (\<Sum>a = t - par_m P + 2..t. at2 (par_d_mu P) i a)
                - (\<Sum>a = t - par_m P + 2..t - 1. \<sigma> (W i a))
              \<le> \<sigma> (W i t))"
    if "par_m P \<le> t"
  proof -
    note v = constraint_45_value [OF c(2) that i0 assms(4)]
    have "satisfies \<sigma> c \<longleftrightarrow>
              \<sigma> (I i (t - par_m P + 1))
                - (\<Sum>a = t - par_m P + 2..t. at2 (par_d_mu P) i a)
                - (\<Sum>a = t - par_m P + 2..t - 1. \<sigma> (W i a))
              \<le> \<sigma> (W i t)" for \<sigma>
      using v(1) v(2) [of \<sigma>] by (simp add: satisfies_def)
    with v show ?thesis by blast
  qed
  have block: "map Inr c45
      = map (\<lambda>(t, i). constraint_45 (par_V P) (par_T P) (par_m P) (par_d_mu P) i t)
          [(t, i). t \<leftarrow> range_t (par_T P), i \<leftarrow> range_i' (par_V P)]"
    using c45 unfolding constraints_45_def by (rule mapE_Inr_map)
  have member: "c \<in> set (constraints (nb_problem nb))" using c(1) by (simp add: cs)
  have whole: "\<exists>c45. constraints_45 (par_V P) (par_T P) (par_m P) (par_d_mu P) = Inr c45
          \<and> map Inr c45
              = map (\<lambda>(t, i). constraint_45 (par_V P) (par_T P) (par_m P) (par_d_mu P) i t)
                  [(t, i). t \<leftarrow> range_t (par_T P), i \<leftarrow> range_i' (par_V P)]"
    using c45 block by (intro exI conjI)
  show ?thesis
  proof (rule bexI [OF _ member], intro conjI impI)
    show "constraint_45 (par_V P) (par_T P) (par_m P) (par_d_mu P) i t = Inr c" by (rule c(2))
  qed (use before after whole in simp_all)
qed

theorem waste_constraints_witness:
  "\<exists>nb. build norm_ppf_sample tiny = Inr nb
     \<and> (\<exists>c \<in> set (constraints (nb_problem nb)).
           constraint_45 (par_V tiny) (par_T tiny) (par_m tiny) (par_d_mu tiny) 1 1 = Inr c
         \<and> sense c = LpConstraintEQ)
     \<and> (\<exists>c \<in> set (constraints (nb_problem nb)).
           constraint_45 (par_V tiny) (par_T tiny) (par_m tiny) (par_d_mu tiny) 1 2 = Inr c
         \<and> sense c = LpConstraintGE)"
proof -
  obtain nb where nb: "build norm_ppf_sample tiny = Inr nb" using tiny_builds by blast
  have h: "(1::int) \<le> 1" "1 \<le> par_V tiny - 1" "1 \<le> par_T tiny" "(1::int) \<le> 2" "2 \<le> par_T tiny"
    "1 < par_m tiny" "par_m tiny \<le> 2"
    by (simp_all add: tiny_def)
  from waste_constraints [OF nb h(1,2,1,3)] obtain c1 where
    c1: "c1 \<in> set (constraints (nb_problem nb))"
      "constraint_45 (par_V tiny) (par_T tiny) (par_m tiny) (par_d_mu tiny) 1 1 = Inr c1"
      "1 < par_m tiny \<longrightarrow> sense c1 = LpConstraintEQ
        \<and> (\<forall>\<sigma>. lp_value \<sigma> (expr c1) = \<sigma> (W 1 1) - 0)
        \<and> (\<forall>\<sigma>. satisfies \<sigma> c1 \<longleftrightarrow> \<sigma> (W 1 1) = 0)"
    by (elim bexE conjE)
  from waste_constraints [OF nb h(1,2,4,5)] obtain c2 where
    c2: "c2 \<in> set (constraints (nb_problem nb))"
      "constraint_45 (par_V tiny) (par_T tiny) (par_m tiny) (par_d_mu tiny) 1 2 = Inr c2"
      "par_m tiny \<le> 2 \<longrightarrow> sense c2 = LpConstraintGE
        \<and> (\<forall>\<sigma>. lp_value \<sigma> (expr c2)
              = \<sigma> (W 1 2)
                - (\<sigma> (I 1 (2 - par_m tiny + 1))
                   - (\<Sum>a = 2 - par_m tiny + 2..2. at2 (par_d_mu tiny) 1 a)
                   - (\<Sum>a = 2 - par_m tiny + 2..2 - 1. \<sigma> (W 1 a))))
        \<and> (\<forall>\<sigma>. satisfies \<sigma> c2 \<longleftrightarrow>
              \<sigma> (I 1 (2 - par_m tiny + 1))
                - (\<Sum>a = 2 - par_m tiny + 2..2. at2 (par_d_mu tiny) 1 a)
                - (\<Sum>a = 2 - par_m tiny + 2..2 - 1. \<sigma> (W 1 a))
              \<le> \<sigma> (W 1 2))"
    by (elim bexE conjE)
  from c1(3) h(6) have s1: "sense c1 = LpConstraintEQ" by (elim impE conjE)
  from c2(3) h(7) have s2: "sense c2 = LpConstraintGE" by (elim impE conjE)
  show ?thesis
    using nb c1(1,2) s1 c2(1,2) s2 by (intro exI conjI bexI)
qed

subsection \<open>C3\<close>

text \<open>
  Claim C3. Once the model is built, for every customer \<open>i\<close> and period \<open>t\<close> the problem
  contains the inventory balance
  \<open>I[i][t] = (\<Sum>s = 1..t. \<Sum>k = 1..K. Q[i][k][s]) - (\<Sum>s = 1..t - 1. d_mu[i][s] + W[i][s])\<close>,
  kept as the difference of its two sides equated with zero; at \<open>t = 1\<close> the second sum is
  empty and the constraint says \<open>I[i][1] = (\<Sum>k = 1..K. Q[i][k][1])\<close>, with no special case
  in the code.
\<close>

theorem inventory_balance_constraint:
  assumes "build norm_ppf P = Inr nb"
    and "1 \<le> i" and "i \<le> par_V P - 1" and "1 \<le> t" and "t \<le> par_T P"
  shows "\<exists>c \<in> set (constraints (nb_problem nb)).
      constraint_2 (par_K P) (par_d_mu P) i t = Inr c
    \<and> sense c = LpConstraintEQ
    \<and> (\<forall>\<sigma>. lp_value \<sigma> (expr c)
          = \<sigma> (I i t)
            - ((\<Sum>s = 1..t. \<Sum>k = 1..par_K P. \<sigma> (Q i k s))
               - (\<Sum>s = 1..t - 1. at2 (par_d_mu P) i s + \<sigma> (W i s))))
    \<and> (\<forall>\<sigma>. satisfies \<sigma> c \<longleftrightarrow>
          \<sigma> (I i t)
          = (\<Sum>s = 1..t. \<Sum>k = 1..par_K P. \<sigma> (Q i k s))
            - (\<Sum>s = 1..t - 1. at2 (par_d_mu P) i s + \<sigma> (W i s)))
    \<and> (t = 1 \<longrightarrow> (\<forall>\<sigma>. satisfies \<sigma> c \<longleftrightarrow> \<sigma> (I i 1) = (\<Sum>k = 1..par_K P. \<sigma> (Q i k 1))))"
proof -
  from assms(1) obtain c2 c45 c21 where
    c2: "constraints_2 (par_V P) (par_K P) (par_T P) (par_d_mu P) = Inr c2"
    and cs: "constraints (nb_problem nb)
       = X_diagonal (par_V P) (par_K P) (par_T P) @ F_diagonal (par_V P) (par_K P) (par_T P)
         @ c2 @ constraints_3 (par_V P) (par_T P) @ c45
         @ constraints_7 (par_V P) (par_K P) (par_T P)
         @ constraints_8 (par_V P) (par_K P) (par_T P)
         @ constraints_9 (par_V P) (par_K P) (par_T P)
         @ constraints_10 (par_V P) (par_K P) (par_T P) (par_c P) @ c21"
    by (rule build_InrE)
  from constraints_2_member [OF c2 assms(2-)] obtain c where
    c: "c \<in> set c2" "constraint_2 (par_K P) (par_d_mu P) i t = Inr c" by blast
  have i0: "0 \<le> i" using assms(2) by simp
  note v = constraint_2_value [OF c(2) i0]
  have general: "satisfies \<sigma> c \<longleftrightarrow>
          \<sigma> (I i t)
          = (\<Sum>s = 1..t. \<Sum>k = 1..par_K P. \<sigma> (Q i k s))
            - (\<Sum>s = 1..t - 1. at2 (par_d_mu P) i s + \<sigma> (W i s))" for \<sigma>
    using v(1) v(2) [of \<sigma>] by (simp add: satisfies_def)
  have first: "satisfies \<sigma> c \<longleftrightarrow> \<sigma> (I i 1) = (\<Sum>k = 1..par_K P. \<sigma> (Q i k 1))" if "t = 1" for \<sigma>
    using general [of \<sigma>] that by simp
  have "c \<in> set (constraints (nb_problem nb))" using c(1) by (simp add: cs)
  with general first show ?thesis using c(2) v by blast
qed

theorem inventory_balance_constraint_witness:
  "\<exists>nb. build norm_ppf_sample tiny = Inr nb
     \<and> (\<exists>c \<in> set (constraints (nb_problem nb)).
           constraint_2 (par_K tiny) (par_d_mu tiny) 1 1 = Inr c
         \<and> (\<forall>\<sigma>. satisfies \<sigma> c \<longleftrightarrow> \<sigma> (I 1 1) = (\<Sum>k = 1..par_K tiny. \<sigma> (Q 1 k 1))))"
proof -
  obtain nb where nb: "build norm_ppf_sample tiny = Inr nb" using tiny_builds by blast
  have "(1::int) \<le> 1" "1 \<le> par_V tiny - 1" "1 \<le> par_T tiny" by (simp_all add: tiny_def)
  from inventory_balance_constraint [OF nb this(1,2,1,3)] nb show ?thesis by blast
qed

subsection \<open>C4\<close>

text \<open>
  Claim C4, amended. Once the model is built, for all nodes \<open>i \<noteq> j\<close>, every vehicle
  \<open>k\<close> and every period \<open>t\<close>, the problem contains the constraint
  \<open>F[i][j][k][t] \<le> c * X[j][i][k][t]\<close>: the load of the edge \<open>(i, j)\<close> is bounded through
  the route indicator of the reversed edge. In every feasible solution \<open>F[i][j][k][t] = 0\<close>
  whenever \<open>X[j][i][k][t] = 0\<close>, and, when the capacity \<open>c\<close> is not negative, no load
  variable (on or off the diagonal) exceeds \<open>c\<close>.
\<close>

theorem capacity_coupling:
  assumes "build norm_ppf P = Inr nb"
    and "1 \<le> k" and "k \<le> par_K P" and "1 \<le> t" and "t \<le> par_T P"
    and "0 \<le> i" and "i \<le> par_V P - 1" and "0 \<le> j" and "j \<le> par_V P - 1"
  shows "(i \<noteq> j \<longrightarrow>
           constraint_10 (par_c P) i j k t \<in> set (constraints (nb_problem nb))
         \<and> sense (constraint_10 (par_c P) i j k t) = LpConstraintLE
         \<and> (\<forall>\<sigma>. lp_value \<sigma> (expr (constraint_10 (par_c P) i j k t))
               = \<sigma> (F i j k t) - par_c P * \<sigma> (X j i k t)))
    \<and> (\<forall>\<sigma>. feasible \<sigma> (nb_problem nb) \<longrightarrow>
           (0 \<le> par_c P \<longrightarrow> \<sigma> (F i j k t) \<le> par_c P)
         \<and> (i \<noteq> j \<and> \<sigma> (X j i k t) = 0 \<longrightarrow> \<sigma> (F i j k t) = 0))"
proof -
  from assms(1) obtain c2 c45 c21 where
    cs: "constraints (nb_problem nb)
       = X_diagonal (par_V P) (par_K P) (par_T P) @ F_diagonal (par_V P) (par_K P) (par_T P)
         @ c2 @ constraints_3 (par_V P) (par_T P) @ c45
         @ constraints_7 (par_V P) (par_K P) (par_T P)
         @ constraints_8 (par_V P) (par_K P) (par_T P)
         @ constraints_9 (par_V P) (par_K P) (par_T P)
         @ constraints_10 (par_V P) (par_K P) (par_T P) (par_c P) @ c21"
    and vs: "variables (nb_problem nb)
       = X_vars (par_V P) (par_K P) (par_T P) @ F_vars (par_V P) (par_K P) (par_T P)
         @ I_vars (par_V P) (par_T P) @ Ip_vars (par_V P) (par_T P)
         @ W_vars (par_V P) (par_T P) @ Q_vars (par_V P) (par_K P) (par_T P)"
    by (rule build_InrE)
  have member: "constraint_10 (par_c P) i j k t \<in> set (constraints (nb_problem nb))" if "i \<noteq> j"
    using constraint_10_member [OF assms(4,5,2,3,6,7,8,9) that] by (simp add: cs)
  have shape: "sense (constraint_10 (par_c P) i j k t) = LpConstraintLE"
    "lp_value \<sigma> (expr (constraint_10 (par_c P) i j k t))
       = \<sigma> (F i j k t) - par_c P * \<sigma> (X j i k t)" for \<sigma>
    by (simp_all add: constraint_10_def)
  have sol: "(0 \<le> par_c P \<longrightarrow> \<sigma> (F i j k t) \<le> par_c P)
         \<and> (i \<noteq> j \<and> \<sigma> (X j i k t) = 0 \<longrightarrow> \<sigma> (F i j k t) = 0)"
    if feas: "feasible \<sigma> (nb_problem nb)" for \<sigma>
  proof -
    have "\<lparr>name = F i j k t, lowBound = Some 0, upBound = None, cat = LpContinuous\<rparr>
        \<in> set (variables (nb_problem nb))"
      using F_vars_member [OF assms(4,5,2,3,6,7,8,9)] by (simp add: vs)
    from feasible_variable [OF feas this] have lo: "0 \<le> \<sigma> (F i j k t)"
      by (simp add: within_domain_def)
    have "\<lparr>name = X j i k t, lowBound = Some 0, upBound = Some 1, cat = LpInteger\<rparr>
        \<in> set (variables (nb_problem nb))"
      using X_vars_member [OF assms(4,5,2,3,8,9,6,7)] by (simp add: vs)
    from feasible_variable [OF feas this] have x: "\<sigma> (X j i k t) \<le> 1"
      by (simp add: within_domain_def)
    show ?thesis
    proof (cases "i = j")
      case True
      have "lp_eq (aff_var (F i i k t)) (aff_num 0) \<in> set (constraints (nb_problem nb))"
        using F_diagonal_member [OF assms(4,5,2,3,6,7)] by (simp add: cs)
      from feasible_constraint [OF feas this] have "\<sigma> (F i i k t) = 0" by simp
      then show ?thesis using True by simp
    next
      case False
      from feasible_constraint [OF feas member [OF False]]
      have le: "\<sigma> (F i j k t) \<le> par_c P * \<sigma> (X j i k t)"
        by (simp only: satisfies_constraint_10)
      have "\<sigma> (F i j k t) \<le> par_c P" if "0 \<le> par_c P"
      proof -
        have "par_c P * \<sigma> (X j i k t) \<le> par_c P * 1"
          using that x by (rule mult_left_mono [rotated])
        with le show ?thesis by simp
      qed
      moreover have "\<sigma> (F i j k t) = 0" if "\<sigma> (X j i k t) = 0"
        using le lo that by simp
      ultimately show ?thesis by blast
    qed
  qed
  from member shape sol show ?thesis by blast
qed

theorem capacity_coupling_witness:
  "\<exists>nb. build norm_ppf_sample tiny = Inr nb
     \<and> constraint_10 (par_c tiny) 0 1 1 1 \<in> set (constraints (nb_problem nb))
     \<and> feasible zero_assignment (nb_problem nb)
     \<and> 0 \<le> par_c tiny
     \<and> zero_assignment (X 1 0 1 1) = 0
     \<and> zero_assignment (F 0 1 1 1) \<le> par_c tiny
     \<and> zero_assignment (F 0 1 1 1) = 0"
proof -
  obtain nb where nb: "build norm_ppf_sample tiny = Inr nb" using tiny_builds by blast
  have feas: "feasible zero_assignment (nb_problem nb)"
    using zero_feasible [OF nb tiny_no_demand] .
  have h: "(1::int) \<le> 1" "1 \<le> par_K tiny" "1 \<le> par_T tiny" "(0::int) \<le> 0" "0 \<le> par_V tiny - 1"
    "(0::int) \<le> 1" "1 \<le> par_V tiny - 1" "0 \<le> par_c tiny" "(0::int) \<noteq> 1"
    "zero_assignment (X 1 0 1 1) = 0"
    by (simp_all add: tiny_def zero_assignment_def)
  from capacity_coupling [OF nb h(1,2,1,3,4,5,6,7)] feas h(8,9,10) nb
  show ?thesis by blast
qed

text \<open>
  With the capacity \<open>- 1\<close> and no demand the zero assignment is feasible, and its loads,
  all zero, exceed the capacity.
\<close>

theorem negative_capacity_exceeded:
  "feasible_for norm_ppf_sample (tiny\<lparr>par_c := - 1\<rparr>) zero_assignment
   \<and> \<not> zero_assignment (F 0 1 1 1) \<le> par_c (tiny\<lparr>par_c := - 1\<rparr>)"
proof -
  obtain nb where nb: "build norm_ppf_sample (tiny\<lparr>par_c := - 1\<rparr>) = Inr nb"
    using negative_capacity_builds by blast
  have "\<forall>i \<in> {1..par_V (tiny\<lparr>par_c := - 1\<rparr>) - 1}. \<forall>s \<in> {1..par_T (tiny\<lparr>par_c := - 1\<rparr>)}.
      at2 (par_d_mu (tiny\<lparr>par_c := - 1\<rparr>)) i s = 0"
    using tiny_no_demand by simp
  from zero_feasible [OF nb this] nb
  have "feasible_for norm_ppf_sample (tiny\<lparr>par_c := - 1\<rparr>) zero_assignment"
    by (simp add: feasible_for_def)
  then show ?thesis by (simp add: zero_assignment_def)
qed

subsection \<open>C5\<close>





subsection \<open>C6\<close>

text \<open>
  Claim C6. Once the model is built, the problem minimises an objective that is the sum of
  the four cost expressions the notebook keeps: the inventory cost
  \<open>h * (\<Sum>i t. Ip[i][t])\<close> over customers and periods; the waste cost
  \<open>p * (\<Sum>i. \<Sum>t = m..T. W[i][t])\<close>, with no term for \<open>t < m\<close>; the fuel cost
  \<open>l * (\<Sum> \<lambda> * (y * a[i][j] * X + \<gamma> * \<beta> * a[i][j] * f\<^sup>2 * X + \<gamma> * s' * (\<mu> * X + F) * a[i][j]))\<close>
  and the driver cost \<open>r * (\<Sum> a[i][j] / f * X)\<close>, both over periods, vehicles and the
  edges with \<open>i \<noteq> j\<close>. A summand with \<open>i = j\<close> is the constant zero.
\<close>

theorem objective_is_four_costs:
  assumes "build norm_ppf P = Inr nb"
  shows "direction (nb_problem nb) = LpMinimize
    \<and> objective (nb_problem nb)
        = aff_add (aff_add (aff_add (nb_inventory_cost nb) (nb_waste_cost nb)) (nb_fuel_cost nb))
            (nb_driver_cost nb)
    \<and> lp_value \<sigma> (objective (nb_problem nb))
        = lp_value \<sigma> (nb_inventory_cost nb) + lp_value \<sigma> (nb_waste_cost nb)
          + lp_value \<sigma> (nb_fuel_cost nb) + lp_value \<sigma> (nb_driver_cost nb)
    \<and> lp_value \<sigma> (nb_inventory_cost nb)
        = par_h P * (\<Sum>i = 1..par_V P - 1. \<Sum>t = 1..par_T P. \<sigma> (Ip i t))
    \<and> lp_value \<sigma> (nb_waste_cost nb)
        = par_p P * (\<Sum>i = 1..par_V P - 1. \<Sum>t = par_m P..par_T P. \<sigma> (W i t))
    \<and> lp_value \<sigma> (nb_fuel_cost nb)
        = par_l P * (\<Sum>t = 1..par_T P. \<Sum>k = 1..par_K P. \<Sum>j = 0..par_V P - 1.
            \<Sum>i \<in> {0..par_V P - 1} - {j}.
              par_xi P / (par_kappa P * par_psi P)
              * (par_k_e P * par_N_e P * par_V_e P * at2 (par_a P) i j * \<sigma> (X i j k t)
                 + 1 / (1000 * par_epsilon P * par_varpi P)
                   * (0.5 * par_C_d P * par_A_e P * par_rho P) * at2 (par_a P) i j
                   * (par_f P)\<^sup>2 * \<sigma> (X i j k t)
                 + 1 / (1000 * par_epsilon P * par_varpi P)
                   * (par_g P * sin (par_phi P) + par_g P * par_C_r P * cos (par_phi P))
                   * (par_mu P * \<sigma> (X i j k t) + \<sigma> (F i j k t)) * at2 (par_a P) i j))
    \<and> lp_value \<sigma> (nb_driver_cost nb)
        = par_r P * (\<Sum>t = 1..par_T P. \<Sum>k = 1..par_K P. \<Sum>j = 0..par_V P - 1.
            \<Sum>i \<in> {0..par_V P - 1} - {j}. at2 (par_a P) i j / par_f P * \<sigma> (X i j k t))
    \<and> fuel_term a0 lambda0 y0 gamma0 beta0 s0 mu0 f0 l0 i i k t = Inr (aff_num 0)
    \<and> driver_term a0 f0 r0 i i k t = Inr (aff_num 0)"
proof -
  from assms obtain lambda' gamma waste fuel driver where
    l: "lambda_coef (par_xi P) (par_kappa P) (par_psi P) = Inr lambda'"
    and g: "gamma_coef (par_epsilon P) (par_varpi P) = Inr gamma"
    and w: "waste_cost (par_V P) (par_T P) (par_m P) (par_p P) = Inr waste"
    and f: "fuel_cost (par_V P) (par_K P) (par_T P) (par_a P) lambda'
       (y_coef (par_k_e P) (par_N_e P) (par_V_e P)) gamma
       (beta_coef (par_C_d P) (par_A_e P) (par_rho P))
       (s_coef (par_g P) (par_phi P) (par_C_r P)) (par_mu P) (par_f P) (par_l P) = Inr fuel"
    and d: "driver_cost (par_V P) (par_K P) (par_T P) (par_a P) (par_f P) (par_r P) = Inr driver"
    and nb: "nb_inventory_cost nb = inventory_cost (par_V P) (par_T P) (par_h P)"
      "nb_waste_cost nb = waste" "nb_fuel_cost nb = fuel" "nb_driver_cost nb = driver"
    and dir: "direction (nb_problem nb) = LpMinimize"
    and obj: "objective (nb_problem nb)
       = aff_add (aff_add (aff_add (inventory_cost (par_V P) (par_T P) (par_h P)) waste) fuel) driver"
    by (rule build_InrE)
  from l have l': "lambda' = par_xi P / (par_kappa P * par_psi P)"
    by (auto simp: lambda_coef_def py_div_def split: if_splits)
  from g have g': "gamma = 1 / (1000 * par_epsilon P * par_varpi P)"
    by (auto simp: gamma_coef_def py_div_def split: if_splits)
  have 1: "objective (nb_problem nb)
        = aff_add (aff_add (aff_add (nb_inventory_cost nb) (nb_waste_cost nb)) (nb_fuel_cost nb))
            (nb_driver_cost nb)"
    by (simp add: obj nb)
  have 2: "lp_value \<sigma> (objective (nb_problem nb))
        = lp_value \<sigma> (nb_inventory_cost nb) + lp_value \<sigma> (nb_waste_cost nb)
          + lp_value \<sigma> (nb_fuel_cost nb) + lp_value \<sigma> (nb_driver_cost nb)"
    by (simp add: 1)
  have 3: "lp_value \<sigma> (nb_inventory_cost nb)
        = par_h P * (\<Sum>i = 1..par_V P - 1. \<Sum>t = 1..par_T P. \<sigma> (Ip i t))"
    by (simp only: nb inventory_cost_value)
  have 4: "lp_value \<sigma> (nb_waste_cost nb)
        = par_p P * (\<Sum>i = 1..par_V P - 1. \<Sum>t = par_m P..par_T P. \<sigma> (W i t))"
    by (simp only: nb waste_cost_value [OF w])
  note 5 = fuel_cost_value [OF f, of \<sigma>, unfolded l' g' y_coef_def beta_coef_def s_coef_def,
      folded nb(3)]
  note 6 = driver_cost_value [OF d, of \<sigma>, folded nb(4)]
  have 7: "fuel_term a0 lambda0 y0 gamma0 beta0 s0 mu0 f0 l0 i i k t = Inr (aff_num 0)"
    "driver_term a0 f0 r0 i i k t = Inr (aff_num 0)"
    by (simp_all add: fuel_term_def driver_term_def)
  from dir 1 2 3 4 5 6 7 show ?thesis by blast
qed

theorem objective_is_four_costs_witness:
  "\<exists>nb. build norm_ppf_sample tiny = Inr nb
     \<and> direction (nb_problem nb) = LpMinimize
     \<and> lp_value zero_assignment (objective (nb_problem nb))
        = lp_value zero_assignment (nb_inventory_cost nb)
          + lp_value zero_assignment (nb_waste_cost nb)
          + lp_value zero_assignment (nb_fuel_cost nb)
          + lp_value zero_assignment (nb_driver_cost nb)"
proof -
  obtain nb where nb: "build norm_ppf_sample tiny = Inr nb" using tiny_builds by blast
  from objective_is_four_costs [OF nb, of zero_assignment] nb show ?thesis by blast
qed

subsection \<open>C7\<close>

text \<open>
  Claim C7, amended. The notebook has no validation step. The signs of the fuel price,
  the wage, the holding cost and the spoilage cost are never checked: if the model is
  built for some costs, it is built, with the same constraints and variables, when the
  sign of any of them is changed. What does stop the notebook before a model exists is a
  demand table too small for the sizes: with at least one period, if some customer has no
  row in \<^verbatim>\<open>d_mu\<close>, or a row of fewer than \<open>T + 1\<close> columns, a cell raises and no model
  is built.
\<close>

theorem costs_not_validated:
  "(build norm_ppf P = Inr nb
      \<and> \<bar>l\<bar> = \<bar>par_l P\<bar> \<and> \<bar>r\<bar> = \<bar>par_r P\<bar> \<and> \<bar>h\<bar> = \<bar>par_h P\<bar> \<and> \<bar>p\<bar> = \<bar>par_p P\<bar>
    \<longrightarrow> (\<exists>nb'. build norm_ppf (P\<lparr>par_l := l, par_r := r, par_h := h, par_p := p\<rparr>) = Inr nb'
          \<and> constraints (nb_problem nb') = constraints (nb_problem nb)
          \<and> variables (nb_problem nb') = variables (nb_problem nb)))
   \<and> (1 \<le> i \<and> i \<le> par_V P - 1 \<and> 1 \<le> par_T P
      \<and> (int (length (par_d_mu P)) \<le> i \<or> int (length (par_d_mu P ! nat i)) \<le> par_T P)
    \<longrightarrow> isl (build norm_ppf P))"
proof (intro conjI impI)
  assume "build norm_ppf P = Inr nb
      \<and> \<bar>l\<bar> = \<bar>par_l P\<bar> \<and> \<bar>r\<bar> = \<bar>par_r P\<bar> \<and> \<bar>h\<bar> = \<bar>par_h P\<bar> \<and> \<bar>p\<bar> = \<bar>par_p P\<bar>"
  then have "build norm_ppf P = Inr nb" by (rule conjunct1)
  then show "\<exists>nb'. build norm_ppf (P\<lparr>par_l := l, par_r := r, par_h := h, par_p := p\<rparr>) = Inr nb'
          \<and> constraints (nb_problem nb') = constraints (nb_problem nb)
          \<and> variables (nb_problem nb') = variables (nb_problem nb)"
    by (rule build_any_costs)
next
  assume a: "1 \<le> i \<and> i \<le> par_V P - 1 \<and> 1 \<le> par_T P
      \<and> (int (length (par_d_mu P)) \<le> i \<or> int (length (par_d_mu P ! nat i)) \<le> par_T P)"
  show "isl (build norm_ppf P)"
  proof (cases "build norm_ppf P")
    case (Inl e)
    then show ?thesis by simp
  next
    case (Inr nb0)
    then obtain right_21 where
      "right_of_const_21 (par_V P) (par_T P) (par_d_mu P) (par_C P)
         (stats_norm_ppf_at norm_ppf (par_alpha P)) = Inr right_21"
      by (rule build_InrE)
    from right_of_const_21_needs_rows [OF this, of i] a
    have "i < int (length (par_d_mu P)) \<and> par_T P < int (length (par_d_mu P ! nat i))"
      by simp
    with a show ?thesis by linarith
  qed
qed

theorem costs_not_validated_witness:
  "(\<exists>nb. build norm_ppf_sample tiny = Inr nb
      \<and> \<bar>- 17 / 10\<bar> = \<bar>par_l tiny\<bar> \<and> \<bar>- 3 / 1000\<bar> = \<bar>par_r tiny\<bar>
      \<and> \<bar>- 6 / 100\<bar> = \<bar>par_h tiny\<bar> \<and> \<bar>- 6 / 10\<bar> = \<bar>par_p tiny\<bar>
      \<and> (\<exists>nb'. build norm_ppf_sample
            (tiny\<lparr>par_l := - 17 / 10, par_r := - 3 / 1000, par_h := - 6 / 100,
                  par_p := - 6 / 10\<rparr>) = Inr nb'
          \<and> constraints (nb_problem nb') = constraints (nb_problem nb)
          \<and> variables (nb_problem nb') = variables (nb_problem nb)))
   \<and> (int (length (par_d_mu (tiny\<lparr>par_d_mu := [[0, 0, 0]]\<rparr>))) \<le> 1
      \<and> isl (build norm_ppf_sample (tiny\<lparr>par_d_mu := [[0, 0, 0]]\<rparr>)))"
proof -
  obtain nb where nb: "build norm_ppf_sample tiny = Inr nb" using tiny_builds by blast
  have signs: "\<bar>- 17 / 10\<bar> = \<bar>par_l tiny\<bar>" "\<bar>- 3 / 1000\<bar> = \<bar>par_r tiny\<bar>"
    "\<bar>- 6 / 100\<bar> = \<bar>par_h tiny\<bar>" "\<bar>- 6 / 10\<bar> = \<bar>par_p tiny\<bar>"
    by (simp_all add: tiny_def)
  have first: "\<exists>nb'. build norm_ppf_sample
            (tiny\<lparr>par_l := - 17 / 10, par_r := - 3 / 1000, par_h := - 6 / 100,
                  par_p := - 6 / 10\<rparr>) = Inr nb'
          \<and> constraints (nb_problem nb') = constraints (nb_problem nb)
          \<and> variables (nb_problem nb') = variables (nb_problem nb)"
    using costs_not_validated [THEN conjunct1, rule_format, OF conjI [OF nb],
        of "- 17 / 10" "- 3 / 1000" "- 6 / 100" "- 6 / 10"] signs
    by simp
  have short: "1 \<le> (1::int) \<and> 1 \<le> par_V (tiny\<lparr>par_d_mu := [[0, 0, 0]]\<rparr>) - 1
      \<and> 1 \<le> par_T (tiny\<lparr>par_d_mu := [[0, 0, 0]]\<rparr>)
      \<and> (int (length (par_d_mu (tiny\<lparr>par_d_mu := [[0, 0, 0]]\<rparr>))) \<le> 1
         \<or> int (length (par_d_mu (tiny\<lparr>par_d_mu := [[0, 0, 0]]\<rparr>) ! nat 1))
            \<le> par_T (tiny\<lparr>par_d_mu := [[0, 0, 0]]\<rparr>))"
    by (simp add: tiny_def)
  have second: "isl (build norm_ppf_sample (tiny\<lparr>par_d_mu := [[0, 0, 0]]\<rparr>))"
    using costs_not_validated [THEN conjunct2, rule_format, OF short] .
  have len: "int (length (par_d_mu (tiny\<lparr>par_d_mu := [[0, 0, 0]]\<rparr>))) \<le> 1" by simp
  from nb signs first second len show ?thesis by blast
qed

text \<open>
  With the holding cost \<open>- 1\<close> the model is built all the same; with a demand table of a
  single row the table-of-bounds cell raises \<^verbatim>\<open>IndexError\<close>.
\<close>

theorem negative_cost_accepted:
  "par_h (tiny\<lparr>par_h := - 1\<rparr>) < 0
   \<and> \<not> isl (build norm_ppf_sample (tiny\<lparr>par_h := - 1\<rparr>))
   \<and> build norm_ppf_sample (tiny\<lparr>par_d_mu := [[0, 0, 0]]\<rparr>) = Inl IndexError"
proof -
  have "\<exists>nb. build norm_ppf_sample (tiny\<lparr>par_h := - 1\<rparr>) = Inr nb"
    by (rule build_succeeds) (simp_all add: tiny_def table_shape_def)
  then have 1: "\<not> isl (build norm_ppf_sample (tiny\<lparr>par_h := - 1\<rparr>))" by auto
  have "right_of_const_21 2 2 [[0, 0, 0]] (1 / 10) (stats_norm_ppf_at norm_ppf_sample (19 / 20))
      = Inl IndexError"
    by (simp add: right_of_const_21_def np_zeros_def range_t_def range_i'_def py_range_def
        upto_rec1 entry_21_def getitem2_def getitem_def norm_index_def)
  then have 2: "build norm_ppf_sample (tiny\<lparr>par_d_mu := [[0, 0, 0]]\<rparr>) = Inl IndexError"
    by (simp add: build_def tiny_def lambda_coef_def gamma_coef_def py_div_def)
  from 1 2 show ?thesis by simp
qed

subsection \<open>C8\<close>

text \<open>
  Claim C8, amended. The printing cells never look at the solver status. Whatever the
  status, when every variable has a value they print the status, the value of each of the
  four cost expressions and of the objective under these values, and every \<open>(t, k, i, j)\<close>
  whose variable \<open>X[i][j][k][t]\<close> has the value 1.
\<close>

theorem report_ignores_status:
  assumes "\<forall>v. varValue v = Some (\<sigma> v)"
  shows "solution_report V K T nb result_status varValue =
    \<lparr>shown_status = result_status,
     shown_objective = Some (lp_value \<sigma> (objective (nb_problem nb))),
     shown_inventory_cost = Some (lp_value \<sigma> (nb_inventory_cost nb)),
     shown_waste_cost = Some (lp_value \<sigma> (nb_waste_cost nb)),
     shown_fuel_cost = Some (lp_value \<sigma> (nb_fuel_cost nb)),
     shown_driver_cost = Some (lp_value \<sigma> (nb_driver_cost nb)),
     shown_cost = Some (lp_value \<sigma> (objective (nb_problem nb))),
     shown_routes =
       [(t, k, i, j). t \<leftarrow> range_t T, k \<leftarrow> range_k K, i \<leftarrow> range_i V, j \<leftarrow> range_j V,
          \<sigma> (X i j k t) = 1]\<rparr>"
  using assms by (simp add: solution_report_def pulp_value_total)

theorem report_ignores_status_witness:
  "\<exists>nb. build norm_ppf_sample tiny = Inr nb
     \<and> (\<forall>v. (Some \<circ> zero_assignment) v = Some (zero_assignment v))
     \<and> shown_status (solution_report 2 1 2 nb LpStatusUnbounded (Some \<circ> zero_assignment))
         = LpStatusUnbounded
     \<and> shown_cost (solution_report 2 1 2 nb LpStatusUnbounded (Some \<circ> zero_assignment))
         = Some (lp_value zero_assignment (objective (nb_problem nb)))"
proof -
  obtain nb where nb: "build norm_ppf_sample tiny = Inr nb" using tiny_builds by blast
  have h: "\<forall>v. (Some \<circ> zero_assignment) v = Some (zero_assignment v)" by simp
  have "shown_status (solution_report 2 1 2 nb LpStatusUnbounded (Some \<circ> zero_assignment))
         = LpStatusUnbounded"
    and "shown_cost (solution_report 2 1 2 nb LpStatusUnbounded (Some \<circ> zero_assignment))
         = Some (lp_value zero_assignment (objective (nb_problem nb)))"
    by (simp_all only: report_ignores_status [OF h] report.simps)
  with nb h show ?thesis by blast
qed

text \<open>
  The notebook run on the sample data with a solver that answers "infeasible" and leaves
  values in the variables: the report shows a cost and a route.
\<close>

theorem report_at_infeasible_status:
  "\<not> isl (run_notebook norm_ppf_sample infeasible_outcome tiny)
   \<and> shown_status (projr (run_notebook norm_ppf_sample infeasible_outcome tiny))
       = LpStatusInfeasible
   \<and> shown_inventory_cost (projr (run_notebook norm_ppf_sample infeasible_outcome tiny)) = Some 0
   \<and> shown_routes (projr (run_notebook norm_ppf_sample infeasible_outcome tiny)) = [(1, 1, 0, 1)]"
proof -
  obtain nb where nb: "build norm_ppf_sample tiny = Inr nb" using tiny_builds by blast
  then have inv: "nb_inventory_cost nb = inventory_cost (par_V tiny) (par_T tiny) (par_h tiny)"
    by (rule build_InrE)
  have sz: "par_V tiny = 2" "par_K tiny = 1" "par_T tiny = 2" by (simp_all add: tiny_def)
  have run: "run_notebook norm_ppf_sample infeasible_outcome tiny
      = Inr (solution_report 2 1 2 nb LpStatusInfeasible
               (\<lambda>v. if v = X 0 1 1 1 then Some 1 else Some 0))"
    by (simp add: run_notebook_def nb infeasible_outcome_def sz)
  have h: "\<forall>v. (if v = X 0 1 1 1 then Some 1 else Some 0) = Some (routed_assignment v)"
    by (simp add: routed_assignment_def)
  have cost: "lp_value routed_assignment (nb_inventory_cost nb) = 0"
    by (simp add: inv inventory_cost_value routed_assignment_def)
  have routes: "[(t, k, i, j). t \<leftarrow> range_t 2, k \<leftarrow> range_k 1, i \<leftarrow> range_i 2, j \<leftarrow> range_j 2,
          routed_assignment (X i j k t) = 1] = [(1, 1, 0, 1)]"
    by (simp add: range_t_def range_k_def range_i_def range_j_def py_range_def
        routed_assignment_def upto_rec1)
  show ?thesis
    by (simp add: run report_ignores_status [OF h] cost routes)
qed

subsection \<open>C9\<close>

text \<open>
  Claim C9. In every feasible solution of the built model, for every vehicle \<open>k\<close>, every
  period \<open>t\<close> and every node \<open>j\<close> of the graph, the depot 0 included, as many selected
  edges enter \<open>j\<close> as leave it. Constraint (7) says so for the customers; for the depot it
  follows by summing over the customers, each edge having one head and one tail.
\<close>

theorem flow_conservation_at_every_node:
  assumes "feasible_for norm_ppf P \<sigma>"
    and "1 \<le> k" and "k \<le> par_K P" and "1 \<le> t" and "t \<le> par_T P"
    and "0 \<le> j" and "j \<le> par_V P - 1"
  shows "(\<Sum>i \<in> {0..par_V P - 1} - {j}. \<sigma> (X i j k t))
       = (\<Sum>i \<in> {0..par_V P - 1} - {j}. \<sigma> (X j i k t))"
proof -
  from assms(1) obtain nb where nb: "build norm_ppf P = Inr nb"
    and feas: "feasible \<sigma> (nb_problem nb)"
    by (rule feasible_forE)
  from nb obtain c2 c45 c21 where
    cs: "constraints (nb_problem nb)
       = X_diagonal (par_V P) (par_K P) (par_T P) @ F_diagonal (par_V P) (par_K P) (par_T P)
         @ c2 @ constraints_3 (par_V P) (par_T P) @ c45
         @ constraints_7 (par_V P) (par_K P) (par_T P)
         @ constraints_8 (par_V P) (par_K P) (par_T P)
         @ constraints_9 (par_V P) (par_K P) (par_T P)
         @ constraints_10 (par_V P) (par_K P) (par_T P) (par_c P) @ c21"
    by (rule build_InrE)
  have customers: "(\<Sum>i \<in> {0..par_V P - 1} - {j'}. \<sigma> (X i j' k t))
       = (\<Sum>i \<in> {0..par_V P - 1} - {j'}. \<sigma> (X j' i k t))"
    if "1 \<le> j'" "j' \<le> par_V P - 1" for j'
  proof -
    have "constraint_7 (par_V P) j' k t \<in> set (constraints (nb_problem nb))"
      using constraint_7_member [OF assms(4,5,2,3) that] by (simp add: cs)
    from feasible_constraint [OF feas this] show ?thesis
      by (simp only: satisfies_constraint_7)
  qed
  show ?thesis
  proof (cases "j = 0")
    case False
    then show ?thesis using assms(6,7) by (intro customers) auto
  next
    case True
    have "(\<Sum>i \<in> {0..par_V P - 1} - {0}. \<sigma> (X i 0 k t))
        = (\<Sum>i \<in> {0..par_V P - 1} - {0}. \<sigma> (X 0 i k t))"
      by (rule depot_balance) (use customers assms(6,7) True in auto)
    then show ?thesis by (simp only: True)
  qed
qed

theorem flow_conservation_at_every_node_witness:
  "feasible_for norm_ppf_sample tiny zero_assignment
   \<and> (\<Sum>i \<in> {0..par_V tiny - 1} - {0}. zero_assignment (X i 0 1 1))
       = (\<Sum>i \<in> {0..par_V tiny - 1} - {0}. zero_assignment (X 0 i 1 1))"
proof -
  have h: "(1::int) \<le> 1" "1 \<le> par_K tiny" "1 \<le> par_T tiny" "(0::int) \<le> 0" "0 \<le> par_V tiny - 1"
    by (simp_all add: tiny_def)
  from flow_conservation_at_every_node [OF tiny_zero_feasible h(1,2,1,3,4,5)] tiny_zero_feasible
  show ?thesis by blast
qed

subsection \<open>C10\<close>




end
